theory Spec2Isabelle
  imports Complex_Main "HOL-Library.Word" "HOL-Library.Multiset"
begin

section \<open>Values, arrays and errors\<close>

text \<open>
  A NumPy float64 cell is a finite number, one of the two infinities, or NaN.  A finite
  float64 is modelled by the real number it denotes.  The comparisons follow IEEE 754:
  every comparison with NaN is false.  Where the result of float arithmetic decides a
  discrete outcome (the normalized longitude, the hour bucket), every operation is
  followed by the rounding \<open>rnd\<close> of the section on float64 rounding; the reductions
  (sums, means, ages) are taken in exact reals.  Overflow beyond the float64 range is
  not modelled.
\<close>

datatype fl = Fin real | PInf | NInf | NaN

datatype py_error = ValueError | KeyError | IndexError | ZeroDivisionError | TypeError

type_synonym arr2d = "fl list list"

fun isfinite :: "fl \<Rightarrow> bool" where
  "isfinite (Fin x) = True"
| "isfinite PInf = False"
| "isfinite NInf = False"
| "isfinite NaN = False"

fun fl_lt :: "fl \<Rightarrow> real \<Rightarrow> bool" where
  "fl_lt (Fin x) c = (x < c)"
| "fl_lt NInf c = True"
| "fl_lt PInf c = False"
| "fl_lt NaN c = False"

fun fl_le :: "fl \<Rightarrow> real \<Rightarrow> bool" where
  "fl_le (Fin x) c = (x \<le> c)"
| "fl_le NInf c = True"
| "fl_le PInf c = False"
| "fl_le NaN c = False"

fun fl_gt :: "fl \<Rightarrow> real \<Rightarrow> bool" where
  "fl_gt (Fin x) c = (c < x)"
| "fl_gt PInf c = True"
| "fl_gt NInf c = False"
| "fl_gt NaN c = False"

text \<open>
  The statement \<^verbatim>\<open>A[cond(A)] = x\<close> on a 2-D array: every cell that satisfies the
  condition is overwritten, every other cell is kept.  An array is a list of rows of
  equal length.
\<close>

definition assign_where :: "(fl \<Rightarrow> bool) \<Rightarrow> fl \<Rightarrow> arr2d \<Rightarrow> arr2d" where
  "assign_where cond x A = map (map (\<lambda>v. if cond v then x else v)) A"

section \<open>Product tables and sanitization\<close>

definition ABSURD_NEG :: real where
  "ABSURD_NEG = - 100000000000000000000"

definition ABSURD_POS :: real where
  "ABSURD_POS = 100000000000000000000"

subsection \<open>build\_tempo\_forecast\_summaries.py\<close>

record spec =
  allow_zero :: bool
  min_spec :: real
  max_spec :: real

definition SPEC :: "string \<rightharpoonup> spec" where
  "SPEC = [
     ''no2''   \<mapsto> \<lparr>allow_zero = False, min_spec = 0, max_spec = 50000000000000000\<rparr>,
     ''hcho''  \<mapsto> \<lparr>allow_zero = False, min_spec = 0, max_spec = 30000000000000000\<rparr>,
     ''o3tot'' \<mapsto> \<lparr>allow_zero = True,  min_spec = 0, max_spec = 700\<rparr>,
     ''cldo4'' \<mapsto> \<lparr>allow_zero = True,  min_spec = 0, max_spec = 1\<rparr>]"

text \<open>\<^verbatim>\<open>SPEC.get(product, {"allow_zero": False, "min": 0.0, "max": 1.0})\<close>\<close>

definition SPEC_get :: "string \<Rightarrow> spec" where
  "SPEC_get product =
     (case SPEC product of
        Some s \<Rightarrow> s
      | None \<Rightarrow> \<lparr>allow_zero = False, min_spec = 0, max_spec = 1\<rparr>)"

definition sanitize_grid :: "arr2d \<Rightarrow> string \<Rightarrow> arr2d" where
  "sanitize_grid grid product =
     (let sp = SPEC_get product;
          g = grid;
          g = assign_where (\<lambda>v. \<not> isfinite v) NaN g;
          g = assign_where (\<lambda>v. fl_lt v ABSURD_NEG) NaN g;
          g = assign_where (\<lambda>v. fl_gt v ABSURD_POS) NaN g;
          g = (if \<not> allow_zero sp
               then assign_where (\<lambda>v. fl_le v 0) NaN g
               else assign_where (\<lambda>v. fl_lt v (min_spec sp)) (Fin (min_spec sp)) g);
          g = assign_where (\<lambda>v. fl_gt v (max_spec sp)) (Fin (max_spec sp)) g
      in g)"

subsection \<open>tempo\_to\_json.py\<close>

record product_entry =
  var :: string
  unit_hint :: string
  uses_cloud :: bool
  p_allow_zero :: bool
  hard_min :: real
  hard_max :: real

definition PRODUCTS :: "string \<rightharpoonup> product_entry" where
  "PRODUCTS = [
     ''no2''   \<mapsto> \<lparr>var = ''product/vertical_column_troposphere'', unit_hint = ''molec/cm2'',
                  uses_cloud = True, p_allow_zero = False, hard_min = 0,
                  hard_max = 50000000000000000\<rparr>,
     ''hcho''  \<mapsto> \<lparr>var = ''product/vertical_column'', unit_hint = ''molec/cm2'',
                  uses_cloud = True, p_allow_zero = False, hard_min = 0,
                  hard_max = 30000000000000000\<rparr>,
     ''o3tot'' \<mapsto> \<lparr>var = ''product/column_amount_o3'', unit_hint = ''DU'',
                  uses_cloud = True, p_allow_zero = True, hard_min = 0, hard_max = 700\<rparr>,
     ''cldo4'' \<mapsto> \<lparr>var = ''product/cloud_fraction'', unit_hint = ''fraction'',
                  uses_cloud = False, p_allow_zero = True, hard_min = 0, hard_max = 1\<rparr>]"

text \<open>\<^verbatim>\<open>PRODUCTS[product]\<close> raises KeyError for a key that is not in the table.\<close>

definition sanitize_array_for_product :: "arr2d \<Rightarrow> string \<Rightarrow> py_error + arr2d" where
  "sanitize_array_for_product arr product =
     (case PRODUCTS product of
        None \<Rightarrow> Inl KeyError
      | Some sp \<Rightarrow>
          (let A = arr;
               A = assign_where (\<lambda>v. \<not> isfinite v) NaN A;
               A = assign_where (\<lambda>v. fl_lt v ABSURD_NEG) NaN A;
               A = assign_where (\<lambda>v. fl_gt v ABSURD_POS) NaN A;
               A = (if \<not> p_allow_zero sp
                    then assign_where (\<lambda>v. fl_le v 0) NaN A
                    else assign_where (\<lambda>v. fl_lt v (hard_min sp)) (Fin (hard_min sp)) A);
               A = assign_where (\<lambda>v. fl_gt v (hard_max sp)) (Fin (hard_max sp)) A
           in Inr A))"


text \<open>
  The five statements of the sanitizers act on one cell at a time; this is their
  composition on a single cell, used to reason about the array functions.
\<close>

definition sanitize_cell :: "bool \<Rightarrow> real \<Rightarrow> real \<Rightarrow> fl \<Rightarrow> fl" where
  "sanitize_cell az lo hi v =
     (let v = (if \<not> isfinite v then NaN else v);
          v = (if fl_lt v ABSURD_NEG then NaN else v);
          v = (if fl_gt v ABSURD_POS then NaN else v);
          v = (if \<not> az then (if fl_le v 0 then NaN else v)
               else (if fl_lt v lo then Fin lo else v));
          v = (if fl_gt v hi then Fin hi else v)
      in v)"

section \<open>Float arithmetic used by the reductions\<close>

fun fl_add :: "fl \<Rightarrow> fl \<Rightarrow> fl" where
  "fl_add (Fin a) (Fin b) = Fin (a + b)"
| "fl_add NaN _ = NaN"
| "fl_add _ NaN = NaN"
| "fl_add PInf NInf = NaN"
| "fl_add NInf PInf = NaN"
| "fl_add PInf _ = PInf"
| "fl_add _ PInf = PInf"
| "fl_add NInf _ = NInf"
| "fl_add _ NInf = NInf"

text \<open>Division of a float by an integer count; \<open>0/0\<close> is NaN, \<open>x/0\<close> an infinity.\<close>

fun fl_div_int :: "fl \<Rightarrow> int \<Rightarrow> fl" where
  "fl_div_int (Fin x) n =
     (if n = 0 then (if x = 0 then NaN else if 0 < x then PInf else NInf)
      else Fin (x / real_of_int n))"
| "fl_div_int PInf n = (if n < 0 then NInf else PInf)"
| "fl_div_int NInf n = (if n < 0 then PInf else NInf)"
| "fl_div_int NaN n = NaN"

text \<open>
  \<^verbatim>\<open>np.nanmean\<close> over one axis: NaN entries count as absent, the rest are summed and
  divided by their number; with no entry left the result is NaN.
\<close>

definition nanmean :: "fl list \<Rightarrow> fl" where
  "nanmean xs =
     (let ys = filter (\<lambda>v. v \<noteq> NaN) xs
      in fl_div_int (foldl fl_add (Fin 0) ys) (int (length ys)))"

section \<open>Rounding to float64\<close>

text \<open>Powers of two with an integer exponent.\<close>

definition pow2 :: "int \<Rightarrow> real" where
  "pow2 e = (if 0 \<le> e then 2 ^ nat e else 1 / 2 ^ nat (- e))"

text \<open>
  The binary exponent of a positive number: \<open>2 ^ binade x \<le> x < 2 ^ (binade x + 1)\<close>.
\<close>

function binade :: "real \<Rightarrow> int" where
  "binade x = (if 2 \<le> x then binade (x / 2) + 1
               else if 0 < x \<and> x < 1 then binade (2 * x) - 1
               else 0)"
  by pat_completeness auto
termination
proof (relation "measure (\<lambda>x. 2 * nat \<lceil>1 / x\<rceil> + nat \<lceil>x\<rceil>)")
  show "wf (measure (\<lambda>x. 2 * nat \<lceil>1 / x\<rceil> + nat \<lceil>x\<rceil>))" by simp
next
  fix x :: real assume x: "2 \<le> x"
  have a: "\<lceil>1 / (x / 2)\<rceil> = 1" using x by (simp add: ceiling_eq_iff)
  have b: "\<lceil>1 / x\<rceil> = 1" using x by (simp add: ceiling_eq_iff)
  have "x / 2 \<le> x - 1" using x by simp
  then have "\<lceil>x / 2\<rceil> \<le> \<lceil>x - 1\<rceil>" by (rule ceiling_mono)
  then have c: "\<lceil>x / 2\<rceil> < \<lceil>x\<rceil>" by simp
  have d: "0 < \<lceil>x / 2\<rceil>" using x by simp
  show "(x / 2, x) \<in> measure (\<lambda>x. 2 * nat \<lceil>1 / x\<rceil> + nat \<lceil>x\<rceil>)"
    using a b c d by simp
next
  fix x :: real assume "\<not> 2 \<le> x" and x: "0 < x \<and> x < 1"
  have cx: "\<lceil>x\<rceil> = 1" using x by (simp add: ceiling_eq_iff)
  show "(2 * x, x) \<in> measure (\<lambda>x. 2 * nat \<lceil>1 / x\<rceil> + nat \<lceil>x\<rceil>)"
  proof (cases "x \<le> 1 / 2")
    case True
    have c2: "\<lceil>2 * x\<rceil> = 1" using x True by (simp add: ceiling_eq_iff)
    have "2 \<le> 1 / x" using x True by (simp add: field_simps)
    then have "1 / x / 2 \<le> 1 / x - 1" by simp
    then have "\<lceil>1 / x / 2\<rceil> \<le> \<lceil>1 / x - 1\<rceil>" by (rule ceiling_mono)
    then have "\<lceil>1 / (2 * x)\<rceil> < \<lceil>1 / x\<rceil>" by (simp add: field_simps)
    moreover have "0 < \<lceil>1 / (2 * x)\<rceil>" using x by simp
    ultimately show ?thesis using cx c2 by simp
  next
    case False
    have c2: "\<lceil>2 * x\<rceil> = 2" using x False by (simp add: ceiling_eq_iff)
    have "1 < 1 / x" "1 / x < 2" using x False by (simp_all add: field_simps)
    then have a: "\<lceil>1 / x\<rceil> = 2" by (simp add: ceiling_eq_iff)
    have "0 < 1 / (2 * x)" "1 / (2 * x) \<le> 1" using x False by (simp_all add: field_simps)
    then have b: "\<lceil>1 / (2 * x)\<rceil> = 1" by (simp add: ceiling_eq_iff)
    show ?thesis using a b cx c2 by simp
  qed
qed

declare binade.simps [simp del]

text \<open>Rounding to the nearest integer, a tie going to the even one.\<close>

definition rnd_even :: "real \<Rightarrow> int" where
  "rnd_even y =
     (let f = \<lfloor>y\<rfloor>; d = y - real_of_int f
      in if d < 1 / 2 then f else if 1 / 2 < d then f + 1 else if even f then f else f + 1)"

text \<open>
  IEEE 754 binary64 rounding to nearest, ties to even: the result is a multiple of the
  unit in the last place \<open>2 ^ (e - 52)\<close> of the binade of \<open>x\<close>, the exponent being at least
  \<open>-1022\<close> (below that the numbers are subnormal, with the fixed spacing \<open>2 ^ -1074\<close>).
\<close>

definition rnd :: "real \<Rightarrow> real" where
  "rnd x =
     (if x = 0 then 0
      else let e = max (binade \<bar>x\<bar>) (- 1022); u = pow2 (e - 52)
           in real_of_int (rnd_even (x / u)) * u)"



section \<open>Grid regridding (tempo\_to\_json.py)\<close>

text \<open>
  \<^verbatim>\<open>arr.shape\<close> of a 2-D array given as a list of rows of equal length.  An array
  without rows has width 0 here.
\<close>

definition shape :: "'a list list \<Rightarrow> nat \<times> nat" where
  "shape A = (length A, (case A of [] \<Rightarrow> 0 | row # _ \<Rightarrow> length row))"

subsection \<open>normalize\_lon\_and\_align\<close>



subsection \<open>block\_reduce\_mean\<close>

text \<open>\<^verbatim>\<open>xs.reshape(len(xs) // n, n)\<close>: consecutive pieces of length \<open>n\<close>.\<close>

definition chunks :: "nat \<Rightarrow> 'a list \<Rightarrow> 'a list list" where
  "chunks n xs = map (\<lambda>k. take n (drop (k * n) xs)) [0..<length xs div n]"

text \<open>
  The block factors are positive integers at the only call site
  (\<^verbatim>\<open>max(1, int(round(...)))\<close>); a factor 0 makes \<^verbatim>\<open>h // by_y\<close> raise.
  \<^verbatim>\<open>np.nanmean(d, axis=3)\<close> averages each row of each block, and the outer
  \<^verbatim>\<open>np.nanmean(..., axis=1)\<close> averages those row means over the rows of the block.
\<close>

definition block_reduce_mean :: "arr2d \<Rightarrow> nat \<Rightarrow> nat \<Rightarrow> py_error + arr2d" where
  "block_reduce_mean arr by_y by_x =
     (let (h, w) = shape arr in
      if by_y = 0 \<or> by_x = 0 then Inl ZeroDivisionError
      else
        let H = (h div by_y) * by_y;
            W = (w div by_x) * by_x
        in if H = 0 \<or> W = 0 then Inl ValueError
           else
             let d = chunks by_y (map (\<lambda>row. chunks by_x (take W row)) (take H arr));
                 inner = map (map (map nanmean)) d
             in Inr (map (\<lambda>blk. map (\<lambda>j. nanmean (map (\<lambda>row. row ! j) blk))
                                   [0..<W div by_x]) inner))"

subsection \<open>reindex\_to\<close>

text \<open>
  \<^verbatim>\<open>np.searchsorted(a, v)\<close> with the default \<^verbatim>\<open>side='left'\<close> on an ascending array:
  the first index \<open>i\<close> with \<open>v \<le> a[i]\<close>, or \<open>len(a)\<close> when there is none.
\<close>

definition searchsorted :: "real list \<Rightarrow> real \<Rightarrow> int" where
  "searchsorted a v = int (length (takeWhile (\<lambda>x. x < v) a))"

text \<open>\<^verbatim>\<open>np.clip(i, lo, hi)\<close> is \<^verbatim>\<open>minimum(maximum(i, lo), hi)\<close>.\<close>

definition clip :: "int \<Rightarrow> int \<Rightarrow> int \<Rightarrow> int" where
  "clip i lo hi = min (max i lo) hi"

text \<open>Indexing with a possibly negative index, which counts from the end.\<close>

definition py_nth :: "'a list \<Rightarrow> int \<Rightarrow> py_error + 'a" where
  "py_nth xs i =
     (if 0 \<le> i \<and> i < int (length xs) then Inr (xs ! nat i)
      else if i < 0 \<and> - int (length xs) \<le> i then Inr (xs ! nat (int (length xs) + i))
      else Inl IndexError)"

fun sequence_err :: "(py_error + 'a) list \<Rightarrow> py_error + 'a list" where
  "sequence_err [] = Inr []"
| "sequence_err (x # xs) =
     (case x of
        Inl e \<Rightarrow> Inl e
      | Inr y \<Rightarrow> (case sequence_err xs of Inl e \<Rightarrow> Inl e | Inr ys \<Rightarrow> Inr (y # ys)))"

definition reindex_to ::
    "real list \<Rightarrow> real list \<Rightarrow> arr2d \<Rightarrow> real list \<Rightarrow> real list \<Rightarrow> py_error + arr2d" where
  "reindex_to lat_src lon_src src lat_dst lon_dst =
     (let iy = map (searchsorted lat_src) lat_dst;
          ix = map (searchsorted lon_src) lon_dst;
          iy = map (\<lambda>i. clip i 0 (int (length lat_src) - 1)) iy;
          ix = map (\<lambda>i. clip i 0 (int (length lon_src) - 1)) ix
      in sequence_err
           (map (\<lambda>i. case py_nth src i of
                        Inl e \<Rightarrow> Inl e
                      | Inr row \<Rightarrow> sequence_err (map (\<lambda>j. py_nth row j) ix)) iy))"


section \<open>Temporal aggregation (build\_tempo\_forecast\_summaries.py)\<close>

type_synonym granule = "int \<times> arr2d"

subsection \<open>build\_latest\<close>

text \<open>
  The loop body of \<^verbatim>\<open>build_latest\<close>.  The state is \<^verbatim>\<open>(latest, latest_ts)\<close>, \<open>None\<close>
  before the first granule.  Assigning through a boolean mask of another shape raises
  IndexError.
\<close>

fun latest_loop ::
    "(arr2d \<times> real list list) option \<Rightarrow> granule list \<Rightarrow>
     py_error + (arr2d \<times> real list list) option" where
  "latest_loop st [] = Inr st"
| "latest_loop None ((end_ts, grid) # rest) =
     latest_loop (Some (grid, map (map (\<lambda>_. real_of_int end_ts)) grid)) rest"
| "latest_loop (Some (latest, latest_ts)) ((end_ts, grid) # rest) =
     (if shape grid \<noteq> shape latest then Inl IndexError
      else latest_loop
             (Some (map2 (map2 (\<lambda>g l. if isfinite g then g else l)) grid latest,
                    map2 (map2 (\<lambda>g t. if isfinite g then real_of_int end_ts else t))
                      grid latest_ts))
             rest)"

text \<open>
  \<^verbatim>\<open>time.time()\<close> is the argument \<open>now_ts\<close>.  \<^verbatim>\<open>list.sort(key=...)\<close> is stable, as
  \<^const>\<open>sort_key\<close> is.
\<close>

definition build_latest ::
    "real \<Rightarrow> granule list \<Rightarrow> py_error + (arr2d \<times> arr2d \<times> int)" where
  "build_latest now_ts values_stack =
     (if values_stack = [] then Inl ValueError
      else
        let vs = sort_key fst values_stack in
        case latest_loop None vs of
          Inl e \<Rightarrow> Inl e
        | Inr None \<Rightarrow> Inl TypeError
        | Inr (Some (latest, latest_ts)) \<Rightarrow>
            let age_h = map (map (\<lambda>t. Fin ((now_ts - t) / 3600))) latest_ts;
                age_h = map2 (map2 (\<lambda>l a. if \<not> isfinite l then NaN else a)) latest age_h;
                newest_end_ts = fst (last vs)
            in Inr (latest, age_h, newest_end_ts))"

subsection \<open>compute\_local\_hour\<close>

text \<open>
  The longitude array holds finite degrees.  Each float64 operation rounds: the division
  by 360, the product with 86400, the sum with the timestamp (an integer, converted to
  float64) and the division by 3600.  \<^verbatim>\<open>np.floor(x) % 24.0\<close> of a whole number is
  the mathematical residue in \<open>0..23\<close>, exactly, which \<^verbatim>\<open>astype(np.int16)\<close> keeps.
\<close>

definition local_hour_of :: "int \<Rightarrow> real \<Rightarrow> int" where
  "local_hour_of utc_end_ts lon_deg =
     (let offset_sec = rnd (rnd (lon_deg / 360) * 86400);
          local_ts = rnd (rnd (real_of_int utc_end_ts) + offset_sec)
      in \<lfloor>rnd (local_ts / 3600)\<rfloor> mod 24)"

definition compute_local_hour :: "int \<Rightarrow> real list list \<Rightarrow> int list list" where
  "compute_local_hour utc_end_ts lon_deg_2d = map (map (local_hour_of utc_end_ts)) lon_deg_2d"

subsection \<open>build\_hod\<close>

text \<open>
  The accumulators: 24 float arrays \<^verbatim>\<open>hod_sum\<close>, 24 int32 arrays \<^verbatim>\<open>hod_cnt\<close> and the
  list \<^verbatim>\<open>hour_counts\<close> of 24 Python integers.
\<close>

type_synonym hod_state = "arr2d list \<times> 32 word list list list \<times> int list"

fun fold_err :: "('a \<Rightarrow> 's \<Rightarrow> py_error + 's) \<Rightarrow> 'a list \<Rightarrow> 's \<Rightarrow> py_error + 's" where
  "fold_err f [] s = Inr s"
| "fold_err f (x # xs) s =
     (case f x s of Inl e \<Rightarrow> Inl e | Inr s' \<Rightarrow> fold_err f xs s')"

text \<open>
  The mask \<^verbatim>\<open>valid_mask & (local_hour == h)\<close> of one hour, and \<^verbatim>\<open>np.any\<close> of a mask.
\<close>

definition hour_mask :: "arr2d \<Rightarrow> int list list \<Rightarrow> nat \<Rightarrow> bool list list" where
  "hour_mask grid local_hour h = map2 (map2 (\<lambda>v lh. isfinite v \<and> lh = int h)) grid local_hour"

definition np_any :: "bool list list \<Rightarrow> bool" where
  "np_any m \<longleftrightarrow> (\<exists>row \<in> set m. \<exists>b \<in> set row. b)"

text \<open>
  One round of \<^verbatim>\<open>for h in range(24)\<close>.  \<open>HW\<close> is the shape of the accumulators;
  updating an accumulator through a mask of another shape raises IndexError.
\<close>

definition hod_hour ::
    "nat \<times> nat \<Rightarrow> arr2d \<Rightarrow> int list list \<Rightarrow> nat \<Rightarrow> hod_state \<Rightarrow> py_error + hod_state" where
  "hod_hour HW grid local_hour h st =
     (case st of (hod_sum, hod_cnt, hour_counts) \<Rightarrow>
        let m = hour_mask grid local_hour h in
        if np_any m then
          if shape m \<noteq> HW then Inl IndexError
          else
            Inr (hod_sum[h := map (\<lambda>r. map (\<lambda>c. if m ! r ! c
                                                 then fl_add (hod_sum ! h ! r ! c) (grid ! r ! c)
                                                 else hod_sum ! h ! r ! c)
                                       [0..<snd HW]) [0..<fst HW]],
                 hod_cnt[h := map (\<lambda>r. map (\<lambda>c. if m ! r ! c
                                                 then hod_cnt ! h ! r ! c + 1
                                                 else hod_cnt ! h ! r ! c)
                                       [0..<snd HW]) [0..<fst HW]],
                 hour_counts[h := hour_counts ! h + 1])
        else Inr st)"

text \<open>
  One round of \<^verbatim>\<open>for end_ts, grid in values_stack\<close>.  The grid and the longitude array
  must have one shape (broadcasting between different shapes is not modelled: the caller
  passes an \<open>H \<times> W\<close> longitude array).
\<close>

definition hod_granule ::
    "nat \<times> nat \<Rightarrow> real list list \<Rightarrow> granule \<Rightarrow> hod_state \<Rightarrow> py_error + hod_state" where
  "hod_granule HW lon2d gr st =
     (case gr of (end_ts, grid) \<Rightarrow>
        let local_hour = compute_local_hour end_ts lon2d in
        if shape grid \<noteq> shape lon2d then Inl ValueError
        else fold_err (hod_hour HW grid local_hour) [0..<24] st)"

text \<open>
  One cell of the final loop: \<^verbatim>\<open>out[mask] = hod_sum[h][mask] / hod_cnt[h][mask]\<close> where
  \<^verbatim>\<open>mask = hod_cnt[h] >= min_per_hour\<close> and \<^verbatim>\<open>out\<close> is NaN elsewhere; the int32 count
  is read as a signed number.
\<close>

definition hod_mean :: "int \<Rightarrow> fl \<Rightarrow> 32 word \<Rightarrow> fl" where
  "hod_mean min_per_hour s c = (if min_per_hour \<le> sint c then fl_div_int s (sint c) else NaN)"

text \<open>
  The first part of \<^verbatim>\<open>build_hod\<close>: the check of the input, the zero accumulators of the
  shape of the first grid, and the loop over the granules.
\<close>

definition hod_accumulate :: "granule list \<Rightarrow> real list list \<Rightarrow> py_error + hod_state" where
  "hod_accumulate values_stack lon2d =
     (case values_stack of
        [] \<Rightarrow> Inl ValueError
      | first # _ \<Rightarrow>
          let (H, W) = shape (snd first);
              hod_sum = replicate 24 (replicate H (replicate W (Fin 0)));
              hod_cnt = replicate 24 (replicate H (replicate W 0));
              hour_counts = replicate 24 0
          in fold_err (hod_granule (H, W) lon2d) values_stack (hod_sum, hod_cnt, hour_counts))"

definition build_hod ::
    "granule list \<Rightarrow> real list list \<Rightarrow> int \<Rightarrow> py_error + (arr2d list \<times> int list)" where
  "build_hod values_stack lon2d min_per_hour =
     (case hod_accumulate values_stack lon2d of
        Inl e \<Rightarrow> Inl e
      | Inr (hod_sum, hod_cnt, hour_counts) \<Rightarrow>
          Inr (map (\<lambda>h. map2 (map2 (hod_mean min_per_hour)) (hod_sum ! h) (hod_cnt ! h))
                 [0..<24],
               hour_counts))"

section \<open>Auxiliary notions for the statements\<close>

text \<open>The index \<^verbatim>\<open>reindex_to\<close> reads on one axis: the clipped search result.\<close>

definition clamped_index :: "real list \<Rightarrow> real \<Rightarrow> nat" where
  "clamped_index a v = nat (clip (searchsorted a v) 0 (int (length a) - 1))"


text \<open>An array of \<open>H\<close> rows of \<open>W\<close> cells each.\<close>

definition has_shape :: "nat \<Rightarrow> nat \<Rightarrow> 'a list list \<Rightarrow> bool" where
  "has_shape H W A \<longleftrightarrow> length A = H \<and> (\<forall>row \<in> set A. length row = W)"

text \<open>
  The last granule of a list in which the cell \<open>(r, c)\<close> is finite, if there is one.
\<close>

definition last_finite :: "nat \<Rightarrow> nat \<Rightarrow> granule list \<Rightarrow> granule option" where
  "last_finite r c gs =
     (case filter (\<lambda>gr. isfinite (snd gr ! r ! c)) gs of [] \<Rightarrow> None | x # xs \<Rightarrow> Some (last (x # xs)))"

text \<open>
  The granule \<open>gr\<close> contributes to the bucket of hour \<open>h\<close> at the cell \<open>(r, c)\<close>: the
  cell is finite and its local hour is \<open>h\<close>.  It contributes to the hour somewhere when
  it does so at some cell of the \<open>H \<times> W\<close> grid.
\<close>

definition contributes :: "real list list \<Rightarrow> nat \<Rightarrow> nat \<Rightarrow> nat \<Rightarrow> granule \<Rightarrow> bool" where
  "contributes lon2d h r c gr \<longleftrightarrow>
     isfinite (snd gr ! r ! c) \<and> local_hour_of (fst gr) (lon2d ! r ! c) = int h"

definition any_contributes :: "nat \<Rightarrow> nat \<Rightarrow> real list list \<Rightarrow> nat \<Rightarrow> granule \<Rightarrow> bool" where
  "any_contributes H W lon2d h gr \<longleftrightarrow> (\<exists>r<H. \<exists>c<W. contributes lon2d h r c gr)"

text \<open>The accumulators have 24 entries, each an \<open>H \<times> W\<close> array.\<close>

definition hod_wf :: "nat \<Rightarrow> nat \<Rightarrow> hod_state \<Rightarrow> bool" where
  "hod_wf H W st \<longleftrightarrow>
     (case st of (S, C, N) \<Rightarrow>
        length S = 24 \<and> length C = 24 \<and> length N = 24 \<and>
        (\<forall>h<24. has_shape H W (S ! h) \<and> has_shape H W (C ! h)))"

text \<open>The number held by a finite cell.\<close>

fun fin_val :: "fl \<Rightarrow> real" where
  "fin_val (Fin x) = x"
| "fin_val PInf = 0"
| "fin_val NInf = 0"
| "fin_val NaN = 0"

section \<open>Sanitization: domain policy, lookup and idempotence\<close>

lemma sanitize_grid_cellwise:
  "sanitize_grid g p =
     map (map (sanitize_cell (allow_zero (SPEC_get p)) (min_spec (SPEC_get p))
                 (max_spec (SPEC_get p)))) g"
  by (simp add: sanitize_grid_def assign_where_def sanitize_cell_def Let_def comp_def)

lemma PRODUCTS_dom: "PRODUCTS p \<noteq> None \<longleftrightarrow> p \<in> {''no2'', ''hcho'', ''o3tot'', ''cldo4''}"
  by (simp add: PRODUCTS_def)

lemma SPEC_dom: "SPEC p \<noteq> None \<longleftrightarrow> p \<in> {''no2'', ''hcho'', ''o3tot'', ''cldo4''}"
  by (simp add: SPEC_def)

text \<open>On the keys of its table the converter's sanitizer agrees with the aggregator's.\<close>

lemma sanitize_array_eq_grid:
  "PRODUCTS p = Some e \<Longrightarrow> sanitize_array_for_product g p = Inr (sanitize_grid g p)"
  by (auto simp: PRODUCTS_def sanitize_array_for_product_def sanitize_grid_def SPEC_get_def
        SPEC_def Let_def split: if_splits)

lemma SPEC_get_cases:
  "SPEC_get p \<in> {\<lparr>allow_zero = False, min_spec = 0, max_spec = 50000000000000000\<rparr>,
     \<lparr>allow_zero = False, min_spec = 0, max_spec = 30000000000000000\<rparr>,
     \<lparr>allow_zero = True,  min_spec = 0, max_spec = 700\<rparr>,
     \<lparr>allow_zero = True,  min_spec = 0, max_spec = 1\<rparr>,
     \<lparr>allow_zero = False, min_spec = 0, max_spec = 1\<rparr>}"
  by (simp add: SPEC_get_def SPEC_def)

lemma SPEC_get_bounds:
  "min_spec (SPEC_get p) = 0" "0 < max_spec (SPEC_get p)" "max_spec (SPEC_get p) \<le> ABSURD_POS"
  using SPEC_get_cases[of p] by (auto simp: ABSURD_POS_def)

lemma sanitize_cell_idem:
  "lo = 0 \<Longrightarrow> 0 < hi \<Longrightarrow> hi \<le> ABSURD_POS \<Longrightarrow>
   sanitize_cell az lo hi (sanitize_cell az lo hi v) = sanitize_cell az lo hi v"
  by (cases v) (auto simp: sanitize_cell_def Let_def ABSURD_POS_def ABSURD_NEG_def)

lemma sanitize_grid_twice: "sanitize_grid (sanitize_grid g p) p = sanitize_grid g p"
  by (simp add: sanitize_grid_cellwise comp_def sanitize_cell_idem SPEC_get_bounds)

text \<open>
  Claim C2, as stated, fails: a finite value above \<^verbatim>\<open>ABSURD_POS = 1e20\<close> is far above
  \<open>max\<close> and becomes missing, not \<open>max\<close>; with \<open>allow_zero\<close> a value below
  \<^verbatim>\<open>ABSURD_NEG = -1e20\<close> becomes missing, not \<open>min\<close>.
\<close>

theorem sanitize_absurd_counterexample:
  "max_spec (SPEC_get ''o3tot'') < 1000000000000000000000 \<and>
   sanitize_grid [[Fin 1000000000000000000000]] ''o3tot'' = [[NaN]] \<and>
   sanitize_array_for_product [[Fin 1000000000000000000000]] ''o3tot'' = Inr [[NaN]] \<and>
   allow_zero (SPEC_get ''o3tot'') \<and>
   - 1000000000000000000000 < min_spec (SPEC_get ''o3tot'') \<and>
   sanitize_grid [[Fin (- 1000000000000000000000)]] ''o3tot'' = [[NaN]]"
  by (simp add: sanitize_grid_def sanitize_array_for_product_def assign_where_def SPEC_get_def
        SPEC_def PRODUCTS_def ABSURD_POS_def ABSURD_NEG_def Let_def)

text \<open>
  Claim C2, amended: for every product and every cell of every input grid, sanitize maps a
  non-finite value to missing, and also a finite value below \<open>-1e20\<close> or above \<open>1e20\<close>;
  for a finite value within these two bounds: when \<open>allow_zero\<close> is false, a value
  \<open>\<le> 0\<close> becomes missing; when \<open>allow_zero\<close> is true, a value \<open>< min\<close> becomes
  exactly \<open>min\<close>; and a value \<open>> max\<close> becomes exactly \<open>max\<close>, never missing.  The
  converter's sanitizer does the same on every product of its table.
\<close>

theorem sanitize_domain_policy:
  "r < length g \<Longrightarrow> c < length (g ! r) \<Longrightarrow>
   (let sp = SPEC_get p; v = g ! r ! c; w = sanitize_grid g p ! r ! c in
     (PRODUCTS p \<noteq> None \<longrightarrow> sanitize_array_for_product g p = Inr (sanitize_grid g p)) \<and>
     (\<not> isfinite v \<longrightarrow> w = NaN) \<and>
     (\<forall>x. v = Fin x \<and> (x < ABSURD_NEG \<or> ABSURD_POS < x) \<longrightarrow> w = NaN) \<and>
     (\<forall>x. v = Fin x \<and> ABSURD_NEG \<le> x \<and> x \<le> ABSURD_POS \<longrightarrow>
        (\<not> allow_zero sp \<and> x \<le> 0 \<longrightarrow> w = NaN) \<and>
        (allow_zero sp \<and> x < min_spec sp \<longrightarrow> w = Fin (min_spec sp)) \<and>
        (max_spec sp < x \<longrightarrow> w = Fin (max_spec sp))))"
  using SPEC_get_bounds[of p]
  by (cases "g ! r ! c")
     (auto simp: sanitize_grid_cellwise sanitize_cell_def Let_def ABSURD_POS_def ABSURD_NEG_def
        dest: sanitize_array_eq_grid)

theorem sanitize_domain_policy_witness:
  "(0::nat) < length [[Fin 800, PInf, Fin (- 3)]] \<and>
   (0::nat) < length ([[Fin 800, PInf, Fin (- 3)]] ! 0) \<and>
   PRODUCTS ''o3tot'' \<noteq> None \<and>
   allow_zero (SPEC_get ''o3tot'') \<and> max_spec (SPEC_get ''o3tot'') < 800 \<and>
   800 \<le> ABSURD_POS \<and> ABSURD_NEG \<le> 800 \<and>
   sanitize_grid [[Fin 800, PInf, Fin (- 3)]] ''o3tot'' ! 0 ! 0 = Fin 700 \<and>
   sanitize_array_for_product [[Fin 800, PInf, Fin (- 3)]] ''o3tot''
     = Inr (sanitize_grid [[Fin 800, PInf, Fin (- 3)]] ''o3tot'')"
  using sanitize_domain_policy [of 0 "[[Fin 800, PInf, Fin (- 3)]]" 0 "''o3tot''"]
  by (simp add: Let_def SPEC_get_def SPEC_def PRODUCTS_def ABSURD_POS_def ABSURD_NEG_def)

text \<open>
  Claim C8, as stated, fails for the converter: \<^verbatim>\<open>PRODUCTS[product]\<close> has no default,
  and sanitizing a grid for an id outside the table raises KeyError.
\<close>

theorem unknown_product_counterexample:
  "sanitize_array_for_product [[Fin (1 / 2)]] ''so2'' = Inl KeyError"
  by (simp add: sanitize_array_for_product_def PRODUCTS_def)

text \<open>
  Claim C8, amended: the aggregator's lookup \<^verbatim>\<open>SPEC.get(product, default)\<close> yields a spec
  for every product id, the default \<open>{allow_zero: false, min: 0.0, max: 1.0}\<close> for an id
  outside the four keys, and its sanitizer then applies that default; the converter's
  lookup \<^verbatim>\<open>PRODUCTS[product]\<close> succeeds exactly on the four keys, where its sanitizer
  returns what the aggregator's does, and raises KeyError for every other id.
\<close>

theorem spec_lookup_default_or_keyerror:
  "(p \<notin> {''no2'', ''hcho'', ''o3tot'', ''cldo4''} \<longrightarrow>
      SPEC_get p = \<lparr>allow_zero = False, min_spec = 0, max_spec = 1\<rparr> \<and>
      sanitize_grid g p = map (map (sanitize_cell False 0 1)) g \<and>
      sanitize_array_for_product g p = Inl KeyError) \<and>
   (p \<in> {''no2'', ''hcho'', ''o3tot'', ''cldo4''} \<longrightarrow>
      SPEC p = Some (SPEC_get p) \<and>
      sanitize_array_for_product g p = Inr (sanitize_grid g p))"
proof (intro conjI impI)
  assume unknown: "p \<notin> {''no2'', ''hcho'', ''o3tot'', ''cldo4''}"
  then have "SPEC p = None" using SPEC_dom[of p] by blast
  then show d: "SPEC_get p = \<lparr>allow_zero = False, min_spec = 0, max_spec = 1\<rparr>"
    by (simp add: SPEC_get_def)
  show "sanitize_grid g p = map (map (sanitize_cell False 0 1)) g"
    by (simp add: sanitize_grid_cellwise d)
  from unknown have "PRODUCTS p = None" using PRODUCTS_dom[of p] by blast
  then show "sanitize_array_for_product g p = Inl KeyError"
    by (simp add: sanitize_array_for_product_def)
next
  assume known: "p \<in> {''no2'', ''hcho'', ''o3tot'', ''cldo4''}"
  then obtain s where "SPEC p = Some s" using SPEC_dom[of p] by blast
  then show "SPEC p = Some (SPEC_get p)" by (simp add: SPEC_get_def)
  from known obtain e where "PRODUCTS p = Some e" using PRODUCTS_dom[of p] by blast
  then show "sanitize_array_for_product g p = Inr (sanitize_grid g p)"
    by (rule sanitize_array_eq_grid)
qed

theorem spec_lookup_default_or_keyerror_witness:
  "''so2'' \<notin> {''no2'', ''hcho'', ''o3tot'', ''cldo4''} \<and>
   SPEC_get ''so2'' = \<lparr>allow_zero = False, min_spec = 0, max_spec = 1\<rparr> \<and>
   sanitize_grid [[Fin 3, Fin (- 1)]] ''so2'' = [[Fin 1, NaN]] \<and>
   sanitize_array_for_product [[Fin 3, Fin (- 1)]] ''so2'' = Inl KeyError \<and>
   ''cldo4'' \<in> {''no2'', ''hcho'', ''o3tot'', ''cldo4''} \<and>
   sanitize_array_for_product [[Fin 3, Fin (- 1)]] ''cldo4'' = Inr [[Fin 1, Fin 0]]"
  using spec_lookup_default_or_keyerror [of "''so2''" "[[Fin 3, Fin (- 1)]]"]
        spec_lookup_default_or_keyerror [of "''cldo4''" "[[Fin 3, Fin (- 1)]]"]
  by (simp add: sanitize_cell_def sanitize_grid_def assign_where_def SPEC_get_def SPEC_def
        ABSURD_POS_def ABSURD_NEG_def Let_def)

text \<open>
  Claim C9: for every known product id and every grid, sanitize is idempotent: applying it
  to its own output returns that output unchanged.  This holds for the aggregator's
  \<^verbatim>\<open>sanitize_grid\<close> (for every id, known or not) and for the converter's
  \<^verbatim>\<open>_sanitize_array_for_product\<close> on the four known ids.
\<close>

theorem sanitize_idempotent:
  "sanitize_grid (sanitize_grid g p) p = sanitize_grid g p \<and>
   (p \<in> {''no2'', ''hcho'', ''o3tot'', ''cldo4''} \<longrightarrow>
      (\<exists>A. sanitize_array_for_product g p = Inr A \<and> sanitize_array_for_product A p = Inr A))"
proof (intro conjI impI)
  show "sanitize_grid (sanitize_grid g p) p = sanitize_grid g p"
    by (rule sanitize_grid_twice)
next
  assume "p \<in> {''no2'', ''hcho'', ''o3tot'', ''cldo4''}"
  then obtain e where e: "PRODUCTS p = Some e" using PRODUCTS_dom[of p] by blast
  have "sanitize_array_for_product g p = Inr (sanitize_grid g p)"
    using e by (rule sanitize_array_eq_grid)
  moreover have "sanitize_array_for_product (sanitize_grid g p) p = Inr (sanitize_grid g p)"
    using sanitize_array_eq_grid[OF e, of "sanitize_grid g p"] by (simp add: sanitize_grid_twice)
  ultimately show
    "\<exists>A. sanitize_array_for_product g p = Inr A \<and> sanitize_array_for_product A p = Inr A"
    by blast
qed

theorem sanitize_idempotent_witness:
  "''no2'' \<in> {''no2'', ''hcho'', ''o3tot'', ''cldo4''} \<and>
   sanitize_grid [[Fin 7, Fin (- 2), NInf, Fin 60000000000000000]] ''no2''
     = [[Fin 7, NaN, NaN, Fin 50000000000000000]] \<and>
   sanitize_grid [[Fin 7, NaN, NaN, Fin 50000000000000000]] ''no2''
     = [[Fin 7, NaN, NaN, Fin 50000000000000000]] \<and>
   (\<exists>A. sanitize_array_for_product [[Fin 7, Fin (- 2), NInf, Fin 60000000000000000]] ''no2''
          = Inr A \<and> sanitize_array_for_product A ''no2'' = Inr A)"
  using sanitize_idempotent [of "[[Fin 7, Fin (- 2), NInf, Fin 60000000000000000]]" "''no2''"]
  by (simp add: sanitize_grid_def assign_where_def SPEC_get_def SPEC_def
        ABSURD_POS_def ABSURD_NEG_def Let_def)

section \<open>block\_reduce\_mean on a ragged block\<close>

text \<open>
  Claim C1 says that the mean of a block is the arithmetic mean of its finite cells, also
  when the rows of the block have different numbers of missing cells.  The code averages
  the per-row means: on the block with rows \<open>[1, missing]\<close> and \<open>[3, 5]\<close> it returns
  \<open>(1 + 4) / 2 = 5/2\<close>, while the mean of the finite cells \<open>1, 3, 5\<close> is \<open>3\<close>.
\<close>

theorem block_reduce_mean_ragged:
  "block_reduce_mean [[Fin 1, NaN], [Fin 3, Fin 5]] 2 2 = Inr [[Fin (5 / 2)]] \<and>
   nanmean (concat [[Fin 1, NaN], [Fin 3, Fin 5]]) = Fin 3"
  by (simp add: block_reduce_mean_def shape_def chunks_def nanmean_def Let_def upt_rec)

section \<open>reindex\_to\<close>

lemma clip_searchsorted_nat:
  assumes "a \<noteq> []"
  shows "clip (searchsorted a v) 0 (int (length a) - 1) = int (clamped_index a v)"
    and "clamped_index a v < length a"
    and "clamped_index a v = min (length (takeWhile (\<lambda>x. x < v) a)) (length a - 1)"
proof -
  have n: "0 < length a" using assms by simp
  have le: "length (takeWhile (\<lambda>x. x < v) a) \<le> length a" by (rule length_takeWhile_le)
  show c: "clamped_index a v = min (length (takeWhile (\<lambda>x. x < v) a)) (length a - 1)"
    using n le by (simp add: clamped_index_def clip_def searchsorted_def)
  show "clamped_index a v < length a" using n unfolding c by linarith
  show "clip (searchsorted a v) 0 (int (length a) - 1) = int (clamped_index a v)"
    using n by (simp add: clamped_index_def clip_def searchsorted_def)
qed

lemma clamped_index_below:
  assumes "m < clamped_index a v" "a \<noteq> []"
  shows "a ! m < v"
proof -
  have "m < length (takeWhile (\<lambda>x. x < v) a)"
    using assms clip_searchsorted_nat(3)[OF assms(2), of v] by simp
  then have "takeWhile (\<lambda>x. x < v) a ! m \<in> set (takeWhile (\<lambda>x. x < v) a)"
    and "takeWhile (\<lambda>x. x < v) a ! m = a ! m"
    by (rule nth_mem, rule takeWhile_nth)
  then show ?thesis by (auto dest: set_takeWhileD)
qed

lemma clamped_index_at:
  assumes "a \<noteq> []"
  shows "v \<le> a ! clamped_index a v \<or> clamped_index a v = length a - 1"
proof (cases "length (takeWhile (\<lambda>x. x < v) a) < length a")
  case True
  then have "\<not> a ! length (takeWhile (\<lambda>x. x < v) a) < v"
    by (rule nth_length_takeWhile)
  moreover have "clamped_index a v = length (takeWhile (\<lambda>x. x < v) a)"
    using True clip_searchsorted_nat(3)[OF assms, of v] by simp
  ultimately show ?thesis by simp
next
  case False
  then show ?thesis using clip_searchsorted_nat(3)[OF assms, of v] by simp
qed

lemma clamped_index_exact:
  assumes "sorted_wrt (<) a" "k < length a"
  shows "clamped_index a (a ! k) = k"
proof -
  have ne: "a \<noteq> []" using assms(2) by auto
  let ?k' = "clamped_index a (a ! k)"
  have "\<not> k < ?k'" using clamped_index_below[OF _ ne, of k "a ! k"] by auto
  moreover have "\<not> ?k' < k"
  proof
    assume l: "?k' < k"
    then have "a ! ?k' < a ! k" using assms by (simp add: sorted_wrt_nth_less)
    moreover have "?k' \<noteq> length a - 1" using l assms(2) by simp
    ultimately show False using clamped_index_at[OF ne, of "a ! k"] by simp
  qed
  ultimately show ?thesis by simp
qed

lemma sequence_err_map_Inr:
  "(\<And>x. x \<in> set xs \<Longrightarrow> f x = Inr (g x)) \<Longrightarrow> sequence_err (map f xs) = Inr (map g xs)"
  by (induction xs) simp_all

lemma py_nth_nat: "k < length xs \<Longrightarrow> py_nth xs (int k) = Inr (xs ! k)"
  by (simp add: py_nth_def)

lemma reindex_to_eq:
  assumes "lat_src \<noteq> []" "lon_src \<noteq> []"
    and "length src = length lat_src" "\<forall>row \<in> set src. length row = length lon_src"
  shows "reindex_to lat_src lon_src src lat_dst lon_dst =
         Inr (map (\<lambda>y. map (\<lambda>x. src ! clamped_index lat_src y ! clamped_index lon_src x) lon_dst)
                lat_dst)"
proof -
  have row: "sequence_err (map (\<lambda>j. py_nth (src ! clamped_index lat_src y) j)
               (map (\<lambda>i. clip i 0 (int (length lon_src) - 1)) (map (searchsorted lon_src) lon_dst)))
             = Inr (map (\<lambda>x. src ! clamped_index lat_src y ! clamped_index lon_src x) lon_dst)" for y
  proof -
    have "clamped_index lat_src y < length src"
      using clip_searchsorted_nat(2)[OF assms(1), of y] assms(3) by simp
    then have len: "length (src ! clamped_index lat_src y) = length lon_src"
      using assms(4) by simp
    show ?thesis
      unfolding map_map comp_def
      by (rule sequence_err_map_Inr)
         (simp add: clip_searchsorted_nat(1)[OF assms(2)] py_nth_nat len
            clip_searchsorted_nat(2)[OF assms(2)])
  qed
  show ?thesis
    unfolding reindex_to_def Let_def map_map comp_def
    apply (rule sequence_err_map_Inr)
    using row
    apply (simp add: clip_searchsorted_nat(1)[OF assms(1)] py_nth_nat assms(3)
        clip_searchsorted_nat(2)[OF assms(1)] comp_def)
    done
qed

text \<open>
  Claim C3, as stated, fails: the index is not the nearest one.  With source latitudes
  \<open>[0, 10]\<close> the destination latitude \<open>1\<close> is nearest to index 0, and the code reads
  index 1.
\<close>

theorem reindex_to_not_nearest_counterexample:
  "sorted_wrt (<) [0, 10 :: real] \<and> sorted_wrt (<) [0 :: real] \<and>
   \<bar>1 - [0, 10 :: real] ! 0\<bar> < \<bar>1 - [0, 10 :: real] ! 1\<bar> \<and>
   [[Fin 1], [Fin 2]] ! 0 ! 0 = Fin 1 \<and>
   reindex_to [0, 10] [0] [[Fin 1], [Fin 2]] [1] [0] = Inr [[Fin 2]]"
  by (simp add: reindex_to_def searchsorted_def clip_def py_nth_def)

text \<open>
  Claim C3, amended: for strictly ascending, non-empty source latitude and longitude axes,
  a source grid of their shape and every destination axis point, \<^verbatim>\<open>reindex_to\<close> returns
  the source value at the first source index whose axis coordinate is not below the
  destination coordinate, and at the last index when every source coordinate is below it
  (so the index is clamped to the valid range; nothing is extrapolated or interpolated);
  in particular when a destination axis point exactly equals a source axis point, the
  exact source value at that point is returned.
\<close>

theorem reindex_to_first_not_below:
  assumes "sorted_wrt (<) lat_src" and "sorted_wrt (<) lon_src"
    and "lat_src \<noteq> []" and "lon_src \<noteq> []"
    and "length src = length lat_src" and "\<forall>row \<in> set src. length row = length lon_src"
  shows "\<exists>out. reindex_to lat_src lon_src src lat_dst lon_dst = Inr out \<and>
           length out = length lat_dst \<and>
           (\<forall>i<length lat_dst. length (out ! i) = length lon_dst \<and>
              (\<forall>j<length lon_dst.
                 \<exists>ky<length lat_src. \<exists>kx<length lon_src.
                   out ! i ! j = src ! ky ! kx \<and>
                   (\<forall>m<ky. lat_src ! m < lat_dst ! i) \<and>
                   (lat_dst ! i \<le> lat_src ! ky \<or> ky = length lat_src - 1) \<and>
                   (\<forall>m<kx. lon_src ! m < lon_dst ! j) \<and>
                   (lon_dst ! j \<le> lon_src ! kx \<or> kx = length lon_src - 1) \<and>
                   (\<forall>k<length lat_src. \<forall>l<length lon_src.
                      lat_dst ! i = lat_src ! k \<and> lon_dst ! j = lon_src ! l \<longrightarrow>
                      out ! i ! j = src ! k ! l)))"
proof -
  let ?out = "map (\<lambda>y. map (\<lambda>x. src ! clamped_index lat_src y ! clamped_index lon_src x) lon_dst)
                lat_dst"
  have eq: "reindex_to lat_src lon_src src lat_dst lon_dst = Inr ?out"
    using assms(3-6) by (rule reindex_to_eq)
  have cell: "\<exists>ky<length lat_src. \<exists>kx<length lon_src.
                   ?out ! i ! j = src ! ky ! kx \<and>
                   (\<forall>m<ky. lat_src ! m < lat_dst ! i) \<and>
                   (lat_dst ! i \<le> lat_src ! ky \<or> ky = length lat_src - 1) \<and>
                   (\<forall>m<kx. lon_src ! m < lon_dst ! j) \<and>
                   (lon_dst ! j \<le> lon_src ! kx \<or> kx = length lon_src - 1) \<and>
                   (\<forall>k<length lat_src. \<forall>l<length lon_src.
                      lat_dst ! i = lat_src ! k \<and> lon_dst ! j = lon_src ! l \<longrightarrow>
                      ?out ! i ! j = src ! k ! l)"
    if i: "i < length lat_dst" and j: "j < length lon_dst" for i j
  proof -
    let ?ky = "clamped_index lat_src (lat_dst ! i)"
    let ?kx = "clamped_index lon_src (lon_dst ! j)"
    have v: "?out ! i ! j = src ! ?ky ! ?kx" using i j by simp
    have "?ky < length lat_src" "?kx < length lon_src"
      using assms(3,4) by (simp_all add: clip_searchsorted_nat(2))
    moreover have "\<forall>m<?ky. lat_src ! m < lat_dst ! i"
      using assms(3) by (auto intro: clamped_index_below)
    moreover have "\<forall>m<?kx. lon_src ! m < lon_dst ! j"
      using assms(4) by (auto intro: clamped_index_below)
    moreover have "lat_dst ! i \<le> lat_src ! ?ky \<or> ?ky = length lat_src - 1"
      using assms(3) by (rule clamped_index_at)
    moreover have "lon_dst ! j \<le> lon_src ! ?kx \<or> ?kx = length lon_src - 1"
      using assms(4) by (rule clamped_index_at)
    moreover have "\<forall>k<length lat_src. \<forall>l<length lon_src.
                      lat_dst ! i = lat_src ! k \<and> lon_dst ! j = lon_src ! l \<longrightarrow>
                      ?out ! i ! j = src ! k ! l"
      using assms(1,2) by (simp add: v clamped_index_exact)
    ultimately show ?thesis using v by blast
  qed
  have "length ?out = length lat_dst" by simp
  moreover have "\<forall>i<length lat_dst. length (?out ! i) = length lon_dst" by simp
  ultimately show ?thesis using eq cell by blast
qed

theorem reindex_to_first_not_below_witness:
  "sorted_wrt (<) [0, 10 :: real] \<and> sorted_wrt (<) [0, 5 :: real] \<and>
   [0, 10 :: real] \<noteq> [] \<and> [0, 5 :: real] \<noteq> [] \<and>
   length [[Fin 1, Fin 2], [Fin 3, Fin 4]] = length [0, 10 :: real] \<and>
   list_all (\<lambda>row. length row = length [0, 5 :: real]) [[Fin 1, Fin 2], [Fin 3, Fin 4]] \<and>
   reindex_to [0, 10] [0, 5] [[Fin 1, Fin 2], [Fin 3, Fin 4]] [1, 10, 0] [5]
     = Inr [[Fin 4], [Fin 4], [Fin 2]]"
proof -
  have h: "sorted_wrt (<) [0, 10 :: real]" "sorted_wrt (<) [0, 5 :: real]"
    "[0, 10 :: real] \<noteq> []" "[0, 5 :: real] \<noteq> []"
    "length [[Fin 1, Fin 2], [Fin 3, Fin 4]] = length [0, 10 :: real]"
    "\<forall>row \<in> set [[Fin 1, Fin 2], [Fin 3, Fin 4]]. length row = length [0, 5 :: real]"
    by simp_all
  from reindex_to_first_not_below [OF h, of "[1, 10, 0]" "[5]"]
  obtain out where "reindex_to [0, 10] [0, 5] [[Fin 1, Fin 2], [Fin 3, Fin 4]] [1, 10, 0] [5] = Inr out"
    by blast
  moreover have "reindex_to [0, 10] [0, 5] [[Fin 1, Fin 2], [Fin 3, Fin 4]] [1, 10, 0] [5]
     = Inr [[Fin 4], [Fin 4], [Fin 2]]"
    by (simp add: reindex_to_def searchsorted_def clip_def py_nth_def)
  ultimately show ?thesis using h by simp
qed

section \<open>Properties of the rounding\<close>


























section \<open>normalize\_lon\_and\_align\<close>












section \<open>build\_latest\<close>

lemma has_shape_nth: "has_shape H W A \<Longrightarrow> r < H \<Longrightarrow> length (A ! r) = W"
  by (simp add: has_shape_def)

lemma has_shape_length: "has_shape H W A \<Longrightarrow> length A = H"
  by (simp add: has_shape_def)

lemma shape_eq: "has_shape H W A \<Longrightarrow> has_shape H W B \<Longrightarrow> shape A = shape B"
  by (cases A; cases B) (auto simp: has_shape_def shape_def)

lemma has_shape_map2:
  "has_shape H W A \<Longrightarrow> has_shape H W B \<Longrightarrow> has_shape H W (map2 (map2 f) A B)"
proof -
  assume A: "has_shape H W A" and B: "has_shape H W B"
  have "length (map2 f a b) = W" if "(a, b) \<in> set (zip A B)" for a b
  proof -
    have "a \<in> set A" "b \<in> set B" using that by (auto dest: set_zip_leftD set_zip_rightD)
    then have "length a = W" "length b = W" using A B by (auto simp: has_shape_def)
    then show ?thesis by simp
  qed
  then show ?thesis using A B by (auto simp: has_shape_def)
qed

lemma nth_map2_map2:
  "has_shape H W A \<Longrightarrow> has_shape H W B \<Longrightarrow> r < H \<Longrightarrow> c < W \<Longrightarrow>
   map2 (map2 f) A B ! r ! c = f (A ! r ! c) (B ! r ! c)"
  by (simp add: has_shape_def)

lemma has_shape_map_map: "has_shape H W A \<Longrightarrow> has_shape H W (map (map f) A)"
  by (auto simp: has_shape_def)

lemma last_finite_Cons:
  "last_finite r c (gr # gs) =
     (case last_finite r c gs of
        Some x \<Rightarrow> Some x
      | None \<Rightarrow> if isfinite (snd gr ! r ! c) then Some gr else None)"
  by (auto simp: last_finite_def split: list.splits)

lemma latest_loop_Some:
  assumes "has_shape H W L" "has_shape H W T" "\<forall>gr \<in> set rest. has_shape H W (snd gr)"
  shows "\<exists>L' T'. latest_loop (Some (L, T)) rest = Inr (Some (L', T')) \<and>
           has_shape H W L' \<and> has_shape H W T' \<and>
           (\<forall>r<H. \<forall>c<W.
              L' ! r ! c = (case last_finite r c rest of None \<Rightarrow> L ! r ! c
                            | Some gr \<Rightarrow> snd gr ! r ! c) \<and>
              T' ! r ! c = (case last_finite r c rest of None \<Rightarrow> T ! r ! c
                            | Some gr \<Rightarrow> real_of_int (fst gr)))"
  using assms
proof (induction rest arbitrary: L T)
  case Nil
  then show ?case by (simp add: last_finite_def)
next
  case (Cons gr rest)
  obtain end_ts grid where gr: "gr = (end_ts, grid)" by (cases gr)
  let ?L1 = "map2 (map2 (\<lambda>g l. if isfinite g then g else l)) grid L"
  let ?T1 = "map2 (map2 (\<lambda>g t. if isfinite g then real_of_int end_ts else t)) grid T"
  have g: "has_shape H W grid" using Cons.prems(3) gr by simp
  have sh: "shape grid = shape L" using g Cons.prems(1) by (rule shape_eq)
  have L1: "has_shape H W ?L1" using g Cons.prems(1) by (rule has_shape_map2)
  have T1: "has_shape H W ?T1" using g Cons.prems(2) by (rule has_shape_map2)
  have rest: "\<forall>gr \<in> set rest. has_shape H W (snd gr)" using Cons.prems(3) by simp
  from Cons.IH[OF L1 T1 rest] obtain L' T' where
    loop: "latest_loop (Some (?L1, ?T1)) rest = Inr (Some (L', T'))"
    and shp: "has_shape H W L'" "has_shape H W T'"
    and cells: "\<forall>r<H. \<forall>c<W.
              L' ! r ! c = (case last_finite r c rest of None \<Rightarrow> ?L1 ! r ! c
                            | Some gr \<Rightarrow> snd gr ! r ! c) \<and>
              T' ! r ! c = (case last_finite r c rest of None \<Rightarrow> ?T1 ! r ! c
                            | Some gr \<Rightarrow> real_of_int (fst gr))"
    by blast
  have "latest_loop (Some (L, T)) (gr # rest) = Inr (Some (L', T'))"
    using loop sh by (simp add: gr)
  moreover have "\<forall>r<H. \<forall>c<W.
              L' ! r ! c = (case last_finite r c (gr # rest) of None \<Rightarrow> L ! r ! c
                            | Some gr \<Rightarrow> snd gr ! r ! c) \<and>
              T' ! r ! c = (case last_finite r c (gr # rest) of None \<Rightarrow> T ! r ! c
                            | Some gr \<Rightarrow> real_of_int (fst gr))"
  proof (intro allI impI)
    fix r c assume rc: "r < H" "c < W"
    have a: "?L1 ! r ! c = (if isfinite (grid ! r ! c) then grid ! r ! c else L ! r ! c)"
      using g Cons.prems(1) rc by (rule nth_map2_map2)
    have b: "?T1 ! r ! c = (if isfinite (grid ! r ! c) then real_of_int end_ts else T ! r ! c)"
      using g Cons.prems(2) rc by (rule nth_map2_map2)
    show "L' ! r ! c = (case last_finite r c (gr # rest) of None \<Rightarrow> L ! r ! c
                            | Some gr \<Rightarrow> snd gr ! r ! c) \<and>
              T' ! r ! c = (case last_finite r c (gr # rest) of None \<Rightarrow> T ! r ! c
                            | Some gr \<Rightarrow> real_of_int (fst gr))"
      using cells rc a b by (simp add: last_finite_Cons gr split: option.splits)
  qed
  ultimately show ?case using shp by blast
qed


lemma last_finite_alt:
  "last_finite r c gs =
     (if filter (\<lambda>gr. isfinite (snd gr ! r ! c)) gs = [] then None
      else Some (last (filter (\<lambda>gr. isfinite (snd gr ! r ! c)) gs)))"
  by (simp add: last_finite_def split: list.splits)

lemma last_finite_SomeD:
  "last_finite r c gs = Some gr \<Longrightarrow> isfinite (snd gr ! r ! c) \<and> gr \<in> set gs"
proof -
  assume a: "last_finite r c gs = Some gr"
  let ?fs = "filter (\<lambda>gr. isfinite (snd gr ! r ! c)) gs"
  from a have "?fs \<noteq> []" "gr = last ?fs"
    by (auto simp: last_finite_def split: list.splits)
  then have "gr \<in> set ?fs" using last_in_set by blast
  then show ?thesis by simp
qed

lemma last_finite_None:
  "(\<forall>k<length gs. \<not> isfinite (snd (gs ! k) ! r ! c)) \<Longrightarrow> last_finite r c gs = None"
proof -
  assume "\<forall>k<length gs. \<not> isfinite (snd (gs ! k) ! r ! c)"
  then have "\<forall>gr \<in> set gs. \<not> isfinite (snd gr ! r ! c)"
    by (simp add: all_set_conv_all_nth)
  then have "filter (\<lambda>gr. isfinite (snd gr ! r ! c)) gs = []"
    by (simp add: filter_empty_conv)
  then show ?thesis by (simp add: last_finite_def)
qed

lemma last_finite_index:
  assumes "k < length gs" "isfinite (snd (gs ! k) ! r ! c)"
    and "\<forall>j<length gs. k < j \<longrightarrow> \<not> isfinite (snd (gs ! j) ! r ! c)"
  shows "last_finite r c gs = Some (gs ! k)"
proof -
  let ?P = "\<lambda>gr. isfinite (snd gr ! r ! c)"
  have split: "gs = take k gs @ gs ! k # drop (Suc k) gs"
    using assms(1) by (rule id_take_nth_drop)
  have "\<forall>gr \<in> set (drop (Suc k) gs). \<not> ?P gr"
  proof
    fix gr assume "gr \<in> set (drop (Suc k) gs)"
    then obtain i where "i < length (drop (Suc k) gs)" "gr = drop (Suc k) gs ! i"
      by (auto simp: in_set_conv_nth)
    then have "gr = gs ! (Suc k + i)" "Suc k + i < length gs" by simp_all
    then show "\<not> ?P gr" using assms(3) by simp
  qed
  then have "filter ?P (drop (Suc k) gs) = []" by (simp add: filter_empty_conv)
  then have "filter ?P gs = filter ?P (take k gs) @ [gs ! k]"
    using assms(2) by (subst split) simp
  then show ?thesis by (simp add: last_finite_alt)
qed

lemma build_latest_cells:
  assumes "stack \<noteq> []" "sorted (map fst stack)" "\<forall>gr \<in> set stack. has_shape H W (snd gr)"
  shows "\<exists>latest age_h. build_latest now_ts stack = Inr (latest, age_h, fst (last stack)) \<and>
           has_shape H W latest \<and> has_shape H W age_h \<and>
           (\<forall>r<H. \<forall>c<W.
              latest ! r ! c = (case last_finite r c stack of None \<Rightarrow> snd (hd stack) ! r ! c
                                | Some gr \<Rightarrow> snd gr ! r ! c) \<and>
              age_h ! r ! c = (case last_finite r c stack of None \<Rightarrow> NaN
                               | Some gr \<Rightarrow> Fin ((now_ts - real_of_int (fst gr)) / 3600)))"
proof -
  obtain t0 g0 rest where stack: "stack = (t0, g0) # rest"
    using assms(1) by (cases stack) auto
  have srt: "sort_key fst stack = stack" using assms(2) by (rule sort_key_id_if_sorted)
  let ?Tinit = "map (map (\<lambda>_. real_of_int t0)) g0"
  have g0: "has_shape H W g0" using assms(3) stack by simp
  have T0: "has_shape H W ?Tinit" using g0 by (rule has_shape_map_map)
  have rest: "\<forall>gr \<in> set rest. has_shape H W (snd gr)" using assms(3) stack by simp
  from latest_loop_Some[OF g0 T0 rest] obtain L T where
    loop: "latest_loop (Some (g0, ?Tinit)) rest = Inr (Some (L, T))"
    and shp: "has_shape H W L" "has_shape H W T"
    and cells: "\<forall>r<H. \<forall>c<W.
              L ! r ! c = (case last_finite r c rest of None \<Rightarrow> g0 ! r ! c
                            | Some gr \<Rightarrow> snd gr ! r ! c) \<and>
              T ! r ! c = (case last_finite r c rest of None \<Rightarrow> ?Tinit ! r ! c
                            | Some gr \<Rightarrow> real_of_int (fst gr))"
    by blast
  let ?raw = "map (map (\<lambda>t. Fin ((now_ts - t) / 3600))) T"
  let ?age = "map2 (map2 (\<lambda>l a. if \<not> isfinite l then NaN else a)) L ?raw"
  have A0: "has_shape H W ?raw" using shp(2) by (rule has_shape_map_map)
  have A: "has_shape H W ?age" using shp(1) A0 by (rule has_shape_map2)
  have res: "build_latest now_ts stack = Inr (L, ?age, fst (last stack))"
    using loop by (simp add: build_latest_def srt Let_def) (simp add: stack)
  have "latest_cell = (case last_finite r c stack of None \<Rightarrow> snd (hd stack) ! r ! c
                                | Some gr \<Rightarrow> snd gr ! r ! c) \<and>
        age_cell = (case last_finite r c stack of None \<Rightarrow> NaN
                               | Some gr \<Rightarrow> Fin ((now_ts - real_of_int (fst gr)) / 3600))"
    if rc: "r < H" "c < W" and lc: "latest_cell = L ! r ! c" and ac: "age_cell = ?age ! r ! c"
    for r c latest_cell age_cell
  proof -
    have Trc: "?Tinit ! r ! c = real_of_int t0"
      using g0 rc by (simp add: has_shape_def)
    have Arc: "?age ! r ! c = (if \<not> isfinite (L ! r ! c) then NaN
                             else Fin ((now_ts - T ! r ! c) / 3600))"
    proof -
      have "?raw ! r ! c = Fin ((now_ts - T ! r ! c) / 3600)"
        using shp(2) rc by (simp add: has_shape_def)
      moreover have "?age ! r ! c =
          (\<lambda>l a. if \<not> isfinite l then NaN else a) (L ! r ! c) (?raw ! r ! c)"
        using shp(1) A0 rc by (rule nth_map2_map2)
      ultimately show ?thesis by simp
    qed
    show ?thesis
    proof (cases "last_finite r c rest")
      case None
      then show ?thesis
        using cells rc Trc Arc lc ac by (simp add: stack last_finite_Cons)
    next
      case (Some gr)
      then have "isfinite (snd gr ! r ! c)" by (simp add: last_finite_SomeD)
      then show ?thesis
        using Some cells rc Arc lc ac by (simp add: stack last_finite_Cons)
    qed
  qed
  then show ?thesis using res shp(1) A by blast
qed

text \<open>
  Claim C5: for every non-empty, time-ordered (oldest to newest) collection of same-shape
  grids, each tagged with an end timestamp, \<^verbatim>\<open>build_latest\<close> returns, for every cell,
  the value of the most recent granule in which that cell is finite, with the age
  \<open>(now - end_ts) / 3600\<close> of that granule: a later granule in which the cell is missing
  never overwrites an earlier finite value.  Every cell that is finite in no granule has
  a missing (non-finite) value and a missing age.  The function returns (no error), and
  its third result is the newest end timestamp.
\<close>

theorem build_latest_last_finite_wins:
  assumes "stack \<noteq> []" and "sorted (map fst stack)"
    and "\<forall>gr \<in> set stack. has_shape H W (snd gr)"
  shows "\<exists>latest age_h. build_latest now_ts stack = Inr (latest, age_h, fst (last stack)) \<and>
           has_shape H W latest \<and> has_shape H W age_h \<and>
           (\<forall>r<H. \<forall>c<W.
              (\<forall>k<length stack.
                 isfinite (snd (stack ! k) ! r ! c) \<and>
                 (\<forall>j<length stack. k < j \<longrightarrow> \<not> isfinite (snd (stack ! j) ! r ! c)) \<longrightarrow>
                 latest ! r ! c = snd (stack ! k) ! r ! c \<and>
                 age_h ! r ! c = Fin ((now_ts - real_of_int (fst (stack ! k))) / 3600)) \<and>
              ((\<forall>k<length stack. \<not> isfinite (snd (stack ! k) ! r ! c)) \<longrightarrow>
                 \<not> isfinite (latest ! r ! c) \<and> age_h ! r ! c = NaN))"
proof -
  from build_latest_cells[OF assms, of now_ts] obtain latest age_h where
    res: "build_latest now_ts stack = Inr (latest, age_h, fst (last stack))"
    and shp: "has_shape H W latest" "has_shape H W age_h"
    and cells: "\<forall>r<H. \<forall>c<W.
              latest ! r ! c = (case last_finite r c stack of None \<Rightarrow> snd (hd stack) ! r ! c
                                | Some gr \<Rightarrow> snd gr ! r ! c) \<and>
              age_h ! r ! c = (case last_finite r c stack of None \<Rightarrow> NaN
                               | Some gr \<Rightarrow> Fin ((now_ts - real_of_int (fst gr)) / 3600))"
    by blast
  have "(\<forall>k<length stack.
                 isfinite (snd (stack ! k) ! r ! c) \<and>
                 (\<forall>j<length stack. k < j \<longrightarrow> \<not> isfinite (snd (stack ! j) ! r ! c)) \<longrightarrow>
                 latest ! r ! c = snd (stack ! k) ! r ! c \<and>
                 age_h ! r ! c = Fin ((now_ts - real_of_int (fst (stack ! k))) / 3600)) \<and>
              ((\<forall>k<length stack. \<not> isfinite (snd (stack ! k) ! r ! c)) \<longrightarrow>
                 \<not> isfinite (latest ! r ! c) \<and> age_h ! r ! c = NaN)"
    if rc: "r < H" "c < W" for r c
  proof (intro conjI allI impI)
    fix k assume k: "k < length stack"
      and "isfinite (snd (stack ! k) ! r ! c) \<and>
           (\<forall>j<length stack. k < j \<longrightarrow> \<not> isfinite (snd (stack ! j) ! r ! c))"
    then have "last_finite r c stack = Some (stack ! k)" by (simp add: last_finite_index)
    then show "latest ! r ! c = snd (stack ! k) ! r ! c"
      and "age_h ! r ! c = Fin ((now_ts - real_of_int (fst (stack ! k))) / 3600)"
      using cells rc by simp_all
  next
    assume none: "\<forall>k<length stack. \<not> isfinite (snd (stack ! k) ! r ! c)"
    then have n: "last_finite r c stack = None" by (rule last_finite_None)
    have "\<not> isfinite (snd (stack ! 0) ! r ! c)" using none assms(1) by simp
    then have "\<not> isfinite (snd (hd stack) ! r ! c)" using assms(1) by (simp add: hd_conv_nth)
    then show "\<not> isfinite (latest ! r ! c)" and "age_h ! r ! c = NaN"
      using cells rc n by simp_all
  qed
  then show ?thesis using res shp by blast
qed

theorem build_latest_last_finite_wins_witness:
  "[(3600, [[Fin 5, NaN, NaN]]), (7200, [[NaN, Fin 7, NaN]])] \<noteq> [] \<and>
   sorted (map fst [(3600 :: int, [[Fin 5, NaN, NaN]]), (7200, [[NaN, Fin 7, NaN]])]) \<and>
   list_all (\<lambda>gr. has_shape 1 3 (snd gr))
     [(3600 :: int, [[Fin 5, NaN, NaN]]), (7200, [[NaN, Fin 7, NaN]])] \<and>
   build_latest 10800 [(3600, [[Fin 5, NaN, NaN]]), (7200, [[NaN, Fin 7, NaN]])]
     = Inr ([[Fin 5, Fin 7, NaN]], [[Fin 2, Fin 1, NaN]], 7200)"
proof -
  let ?stack = "[(3600 :: int, [[Fin 5, NaN, NaN]]), (7200, [[NaN, Fin 7, NaN]])]"
  have h: "?stack \<noteq> []" "sorted (map fst ?stack)"
    "\<forall>gr \<in> set ?stack. has_shape 1 3 (snd gr)"
    by (simp_all add: has_shape_def)
  from build_latest_last_finite_wins [OF h, of 10800]
  obtain latest age_h where
    res: "build_latest 10800 ?stack = Inr (latest, age_h, fst (last ?stack))"
    and shp: "has_shape 1 3 latest" "has_shape 1 3 age_h"
    and cells: "\<forall>r<1. \<forall>c<3.
              (\<forall>k<length ?stack.
                 isfinite (snd (?stack ! k) ! r ! c) \<and>
                 (\<forall>j<length ?stack. k < j \<longrightarrow> \<not> isfinite (snd (?stack ! j) ! r ! c)) \<longrightarrow>
                 latest ! r ! c = snd (?stack ! k) ! r ! c \<and>
                 age_h ! r ! c = Fin ((10800 - real_of_int (fst (?stack ! k))) / 3600)) \<and>
              ((\<forall>k<length ?stack. \<not> isfinite (snd (?stack ! k) ! r ! c)) \<longrightarrow>
                 \<not> isfinite (latest ! r ! c) \<and> age_h ! r ! c = NaN)"
    by blast
  have c0: "latest ! 0 ! 0 = Fin 5 \<and> age_h ! 0 ! 0 = Fin 2"
    using cells[rule_format, of 0 0, THEN conjunct1, rule_format, of 0]
    by (simp add: less_Suc_eq)
  have c1: "latest ! 0 ! 1 = Fin 7 \<and> age_h ! 0 ! 1 = Fin 1"
    using cells[rule_format, of 0 1, THEN conjunct1, rule_format, of 1]
    by (simp add: less_Suc_eq)
  have c2: "age_h ! 0 ! 2 = NaN \<and> \<not> isfinite (latest ! 0 ! 2)"
    using cells[rule_format, of 0 2, THEN conjunct2]
    by (simp add: less_Suc_eq numeral_2_eq_2)
  have "build_latest 10800 ?stack = Inr ([[Fin 5, Fin 7, NaN]], [[Fin 2, Fin 1, NaN]], 7200)"
    by (simp add: build_latest_def shape_def Let_def)
  then show ?thesis using h(1,2) res c0 c1 c2 by (simp add: has_shape_def)
qed

section \<open>build\_hod\<close>

lemma shape_has_shape: "has_shape H W A \<Longrightarrow> 0 < H \<Longrightarrow> shape A = (H, W)"
  by (cases A) (auto simp: has_shape_def shape_def)

lemma has_shape_tabulate:
  "has_shape H W (map (\<lambda>r. map (\<lambda>c. f r c) [0..<W]) [0..<H])"
  by (auto simp: has_shape_def)

lemma any_mask_iff:
  assumes "has_shape H W m"
  shows "np_any m \<longleftrightarrow> (\<exists>r<H. \<exists>c<W. m ! r ! c)"
  unfolding np_any_def
proof
  assume "\<exists>row \<in> set m. \<exists>b \<in> set row. b"
  then obtain row b where "row \<in> set m" "b \<in> set row" b by blast
  then obtain r c where "r < length m" "row = m ! r" "c < length row" "b = row ! c"
    by (auto simp: in_set_conv_nth)
  then show "\<exists>r<H. \<exists>c<W. m ! r ! c"
    using assms \<open>b\<close> by (auto simp: has_shape_def)
next
  assume "\<exists>r<H. \<exists>c<W. m ! r ! c"
  then obtain r c where rc: "r < H" "c < W" "m ! r ! c" by blast
  then have "r < length m" "c < length (m ! r)"
    using assms by (auto simp: has_shape_def)
  then have "m ! r \<in> set m" "m ! r ! c \<in> set (m ! r)"
    by (simp_all only: nth_mem)
  then show "\<exists>row \<in> set m. \<exists>b \<in> set row. b" using rc(3) by blast
qed

lemma hod_hour_step:
  assumes wf: "hod_wf H W (S, C, N)" and g: "has_shape H W grid" and l: "has_shape H W lon2d"
    and h: "h < 24" and g0: "has_shape H W g0" and HW: "HW = shape g0"
  shows "\<exists>S' C' N'.
           hod_hour HW grid (compute_local_hour ts lon2d) h (S, C, N) = Inr (S', C', N') \<and>
           hod_wf H W (S', C', N') \<and>
           (\<forall>h'<24. h' \<noteq> h \<longrightarrow> S' ! h' = S ! h' \<and> C' ! h' = C ! h' \<and> N' ! h' = N ! h') \<and>
           N' ! h = N ! h + (if any_contributes H W lon2d h (ts, grid) then 1 else 0) \<and>
           (\<forall>r<H. \<forall>c<W.
              S' ! h ! r ! c = (if contributes lon2d h r c (ts, grid)
                                then fl_add (S ! h ! r ! c) (grid ! r ! c) else S ! h ! r ! c) \<and>
              C' ! h ! r ! c = (if contributes lon2d h r c (ts, grid)
                                then C ! h ! r ! c + 1 else C ! h ! r ! c))"
proof -
  let ?lh = "compute_local_hour ts lon2d"
  let ?m = "hour_mask grid ?lh h"
  have lh: "has_shape H W ?lh"
    unfolding compute_local_hour_def using l by (rule has_shape_map_map)
  have m: "has_shape H W ?m" unfolding hour_mask_def using g lh by (rule has_shape_map2)
  have mrc: "?m ! r ! c = contributes lon2d h r c (ts, grid)" if "r < H" "c < W" for r c
  proof -
    have "?lh ! r ! c = local_hour_of ts (lon2d ! r ! c)"
      using l that by (simp add: compute_local_hour_def has_shape_def)
    moreover have "?m ! r ! c = (\<lambda>v lh. isfinite v \<and> lh = int h) (grid ! r ! c) (?lh ! r ! c)"
      unfolding hour_mask_def using g lh that by (rule nth_map2_map2)
    ultimately show ?thesis by (simp add: contributes_def)
  qed
  have any: "np_any ?m \<longleftrightarrow> any_contributes H W lon2d h (ts, grid)"
    unfolding any_mask_iff[OF m] any_contributes_def using mrc by blast
  have lens: "length S = 24" "length C = 24" "length N = 24"
    and shp: "\<And>k. k < 24 \<Longrightarrow> has_shape H W (S ! k)" "\<And>k. k < 24 \<Longrightarrow> has_shape H W (C ! k)"
    using wf by (simp_all add: hod_wf_def)
  show ?thesis
  proof (cases "any_contributes H W lon2d h (ts, grid)")
    case False
    then have none: "\<And>r c. r < H \<Longrightarrow> c < W \<Longrightarrow> \<not> contributes lon2d h r c (ts, grid)"
      by (auto simp: any_contributes_def)
    have "hod_hour HW grid ?lh h (S, C, N) = Inr (S, C, N)"
      using False any by (simp add: hod_hour_def Let_def)
    then show ?thesis using wf False none by auto
  next
    case True
    then have pos: "0 < H" by (auto simp: any_contributes_def)
    have hw: "HW = (H, W)" "shape ?m = (H, W)"
      using shape_has_shape[OF g0 pos] shape_has_shape[OF m pos] HW by simp_all
    let ?S' = "S[h := map (\<lambda>r. map (\<lambda>c. if ?m ! r ! c then fl_add (S ! h ! r ! c) (grid ! r ! c)
                                          else S ! h ! r ! c) [0..<W]) [0..<H]]"
    let ?C' = "C[h := map (\<lambda>r. map (\<lambda>c. if ?m ! r ! c then C ! h ! r ! c + 1
                                          else C ! h ! r ! c) [0..<W]) [0..<H]]"
    let ?N' = "N[h := N ! h + 1]"
    have res: "hod_hour HW grid ?lh h (S, C, N) = Inr (?S', ?C', ?N')"
      using True any hw by (simp add: hod_hour_def Let_def)
    have wf': "hod_wf H W (?S', ?C', ?N')"
      using lens shp h by (simp add: hod_wf_def nth_list_update has_shape_tabulate)
    have other: "\<forall>h'<24. h' \<noteq> h \<longrightarrow> ?S' ! h' = S ! h' \<and> ?C' ! h' = C ! h' \<and> ?N' ! h' = N ! h'"
      by simp
    have cnt: "?N' ! h = N ! h + (if any_contributes H W lon2d h (ts, grid) then 1 else 0)"
      using True h lens by simp
    have cells: "\<forall>r<H. \<forall>c<W.
              ?S' ! h ! r ! c = (if contributes lon2d h r c (ts, grid)
                                then fl_add (S ! h ! r ! c) (grid ! r ! c) else S ! h ! r ! c) \<and>
              ?C' ! h ! r ! c = (if contributes lon2d h r c (ts, grid)
                                then C ! h ! r ! c + 1 else C ! h ! r ! c)"
      using h lens mrc by simp
    show ?thesis using res wf' other cnt cells by blast
  qed
qed


lemma hod_hours_fold:
  assumes g: "has_shape H W grid" and l: "has_shape H W lon2d"
    and g0: "has_shape H W g0" and HW: "HW = shape g0"
    and hs: "distinct hs" "\<forall>h \<in> set hs. h < 24"
    and wf: "hod_wf H W (S, C, N)"
  shows "\<exists>S' C' N'.
           fold_err (hod_hour HW grid (compute_local_hour ts lon2d)) hs (S, C, N)
             = Inr (S', C', N') \<and>
           hod_wf H W (S', C', N') \<and>
           (\<forall>h<24.
              N' ! h = N ! h + (if h \<in> set hs \<and> any_contributes H W lon2d h (ts, grid)
                                then 1 else 0) \<and>
              (\<forall>r<H. \<forall>c<W.
                 S' ! h ! r ! c = (if h \<in> set hs \<and> contributes lon2d h r c (ts, grid)
                                   then fl_add (S ! h ! r ! c) (grid ! r ! c)
                                   else S ! h ! r ! c) \<and>
                 C' ! h ! r ! c = (if h \<in> set hs \<and> contributes lon2d h r c (ts, grid)
                                   then C ! h ! r ! c + 1 else C ! h ! r ! c)))"
  using hs wf
proof (induction hs arbitrary: S C N)
  case Nil
  then show ?case by simp
next
  case (Cons k hs)
  have k: "k < 24" "k \<notin> set hs" and hs': "distinct hs" "\<forall>h \<in> set hs. h < 24"
    using Cons.prems(1,2) by simp_all
  from hod_hour_step[OF Cons.prems(3) g l k(1) g0 HW, of ts] obtain S1 C1 N1 where
    step: "hod_hour HW grid (compute_local_hour ts lon2d) k (S, C, N) = Inr (S1, C1, N1)"
    and wf1: "hod_wf H W (S1, C1, N1)"
    and other: "\<forall>h'<24. h' \<noteq> k \<longrightarrow> S1 ! h' = S ! h' \<and> C1 ! h' = C ! h' \<and> N1 ! h' = N ! h'"
    and cnt: "N1 ! k = N ! k + (if any_contributes H W lon2d k (ts, grid) then 1 else 0)"
    and cells: "\<forall>r<H. \<forall>c<W.
              S1 ! k ! r ! c = (if contributes lon2d k r c (ts, grid)
                                then fl_add (S ! k ! r ! c) (grid ! r ! c) else S ! k ! r ! c) \<and>
              C1 ! k ! r ! c = (if contributes lon2d k r c (ts, grid)
                                then C ! k ! r ! c + 1 else C ! k ! r ! c)"
    by blast
  from Cons.IH[OF hs' wf1] obtain S' C' N' where
    fold: "fold_err (hod_hour HW grid (compute_local_hour ts lon2d)) hs (S1, C1, N1)
             = Inr (S', C', N')"
    and wf': "hod_wf H W (S', C', N')"
    and rest: "\<forall>h<24.
              N' ! h = N1 ! h + (if h \<in> set hs \<and> any_contributes H W lon2d h (ts, grid)
                                then 1 else 0) \<and>
              (\<forall>r<H. \<forall>c<W.
                 S' ! h ! r ! c = (if h \<in> set hs \<and> contributes lon2d h r c (ts, grid)
                                   then fl_add (S1 ! h ! r ! c) (grid ! r ! c)
                                   else S1 ! h ! r ! c) \<and>
                 C' ! h ! r ! c = (if h \<in> set hs \<and> contributes lon2d h r c (ts, grid)
                                   then C1 ! h ! r ! c + 1 else C1 ! h ! r ! c))"
    by blast
  have res: "fold_err (hod_hour HW grid (compute_local_hour ts lon2d)) (k # hs) (S, C, N)
             = Inr (S', C', N')"
    using step fold by simp
  have "N' ! h = N ! h + (if h \<in> set (k # hs) \<and> any_contributes H W lon2d h (ts, grid)
                                then 1 else 0) \<and>
              (\<forall>r<H. \<forall>c<W.
                 S' ! h ! r ! c = (if h \<in> set (k # hs) \<and> contributes lon2d h r c (ts, grid)
                                   then fl_add (S ! h ! r ! c) (grid ! r ! c)
                                   else S ! h ! r ! c) \<and>
                 C' ! h ! r ! c = (if h \<in> set (k # hs) \<and> contributes lon2d h r c (ts, grid)
                                   then C ! h ! r ! c + 1 else C ! h ! r ! c))"
    if h: "h < 24" for h
  proof (cases "h = k")
    case True
    then show ?thesis using rest[rule_format, OF h] k(2) cnt cells by simp
  next
    case False
    then show ?thesis using rest[rule_format, OF h] other[rule_format, OF h] by simp
  qed
  then show ?case using res wf' by blast
qed

lemma hod_granule_step:
  assumes g: "has_shape H W (snd gr)" and l: "has_shape H W lon2d"
    and g0: "has_shape H W g0" and HW: "HW = shape g0"
    and wf: "hod_wf H W (S, C, N)"
  shows "\<exists>S' C' N'.
           hod_granule HW lon2d gr (S, C, N) = Inr (S', C', N') \<and>
           hod_wf H W (S', C', N') \<and>
           (\<forall>h<24.
              N' ! h = N ! h + (if any_contributes H W lon2d h gr then 1 else 0) \<and>
              (\<forall>r<H. \<forall>c<W.
                 S' ! h ! r ! c = (if contributes lon2d h r c gr
                                   then fl_add (S ! h ! r ! c) (snd gr ! r ! c)
                                   else S ! h ! r ! c) \<and>
                 C' ! h ! r ! c = (if contributes lon2d h r c gr
                                   then C ! h ! r ! c + 1 else C ! h ! r ! c)))"
proof -
  obtain ts grid where gr: "gr = (ts, grid)" by (cases gr)
  have g': "has_shape H W grid" using g gr by simp
  have sh: "shape grid = shape lon2d" using g' l by (rule shape_eq)
  have hs: "distinct [0..<24]" "\<forall>h \<in> set [0..<24]. h < 24" by simp_all
  from hod_hours_fold[OF g' l g0 HW hs wf, of ts] obtain S' C' N' where
    fold: "fold_err (hod_hour HW grid (compute_local_hour ts lon2d)) [0..<24] (S, C, N)
             = Inr (S', C', N')"
    and wf': "hod_wf H W (S', C', N')"
    and props: "\<forall>h<24.
              N' ! h = N ! h + (if h \<in> set [0..<24] \<and> any_contributes H W lon2d h (ts, grid)
                                then 1 else 0) \<and>
              (\<forall>r<H. \<forall>c<W.
                 S' ! h ! r ! c = (if h \<in> set [0..<24] \<and> contributes lon2d h r c (ts, grid)
                                   then fl_add (S ! h ! r ! c) (grid ! r ! c)
                                   else S ! h ! r ! c) \<and>
                 C' ! h ! r ! c = (if h \<in> set [0..<24] \<and> contributes lon2d h r c (ts, grid)
                                   then C ! h ! r ! c + 1 else C ! h ! r ! c))"
    by blast
  have res: "hod_granule HW lon2d gr (S, C, N) = Inr (S', C', N')"
    using fold sh by (simp add: hod_granule_def gr Let_def)
  have "\<forall>h<24.
              N' ! h = N ! h + (if any_contributes H W lon2d h gr then 1 else 0) \<and>
              (\<forall>r<H. \<forall>c<W.
                 S' ! h ! r ! c = (if contributes lon2d h r c gr
                                   then fl_add (S ! h ! r ! c) (snd gr ! r ! c)
                                   else S ! h ! r ! c) \<and>
                 C' ! h ! r ! c = (if contributes lon2d h r c gr
                                   then C ! h ! r ! c + 1 else C ! h ! r ! c))"
    using props by (simp add: gr)
  then show ?thesis using res wf' by blast
qed

lemma hod_stack_fold:
  assumes l: "has_shape H W lon2d" and g0: "has_shape H W g0" and HW: "HW = shape g0"
    and gs: "\<forall>gr \<in> set stack. has_shape H W (snd gr)"
    and wf: "hod_wf H W (S, C, N)"
  shows "\<exists>S' C' N'.
           fold_err (hod_granule HW lon2d) stack (S, C, N) = Inr (S', C', N') \<and>
           hod_wf H W (S', C', N') \<and>
           (\<forall>h<24.
              N' ! h = N ! h + int (length (filter (any_contributes H W lon2d h) stack)) \<and>
              (\<forall>r<H. \<forall>c<W.
                 S' ! h ! r ! c =
                   foldl fl_add (S ! h ! r ! c)
                     (map (\<lambda>gr. snd gr ! r ! c) (filter (contributes lon2d h r c) stack)) \<and>
                 C' ! h ! r ! c =
                   C ! h ! r ! c + of_nat (length (filter (contributes lon2d h r c) stack))))"
  using gs wf
proof (induction stack arbitrary: S C N)
  case Nil
  then show ?case by simp
next
  case (Cons gr stack)
  have g: "has_shape H W (snd gr)" and gs': "\<forall>gr \<in> set stack. has_shape H W (snd gr)"
    using Cons.prems(1) by simp_all
  from hod_granule_step[OF g l g0 HW Cons.prems(2)] obtain S1 C1 N1 where
    step: "hod_granule HW lon2d gr (S, C, N) = Inr (S1, C1, N1)"
    and wf1: "hod_wf H W (S1, C1, N1)"
    and one: "\<forall>h<24.
              N1 ! h = N ! h + (if any_contributes H W lon2d h gr then 1 else 0) \<and>
              (\<forall>r<H. \<forall>c<W.
                 S1 ! h ! r ! c = (if contributes lon2d h r c gr
                                   then fl_add (S ! h ! r ! c) (snd gr ! r ! c)
                                   else S ! h ! r ! c) \<and>
                 C1 ! h ! r ! c = (if contributes lon2d h r c gr
                                   then C ! h ! r ! c + 1 else C ! h ! r ! c))"
    by blast
  from Cons.IH[OF gs' wf1] obtain S' C' N' where
    fold: "fold_err (hod_granule HW lon2d) stack (S1, C1, N1) = Inr (S', C', N')"
    and wf': "hod_wf H W (S', C', N')"
    and rest: "\<forall>h<24.
              N' ! h = N1 ! h + int (length (filter (any_contributes H W lon2d h) stack)) \<and>
              (\<forall>r<H. \<forall>c<W.
                 S' ! h ! r ! c =
                   foldl fl_add (S1 ! h ! r ! c)
                     (map (\<lambda>gr. snd gr ! r ! c) (filter (contributes lon2d h r c) stack)) \<and>
                 C' ! h ! r ! c =
                   C1 ! h ! r ! c + of_nat (length (filter (contributes lon2d h r c) stack)))"
    by blast
  have res: "fold_err (hod_granule HW lon2d) (gr # stack) (S, C, N) = Inr (S', C', N')"
    using step fold by simp
  have "\<forall>h<24.
              N' ! h = N ! h + int (length (filter (any_contributes H W lon2d h) (gr # stack))) \<and>
              (\<forall>r<H. \<forall>c<W.
                 S' ! h ! r ! c =
                   foldl fl_add (S ! h ! r ! c)
                     (map (\<lambda>gr. snd gr ! r ! c) (filter (contributes lon2d h r c) (gr # stack))) \<and>
                 C' ! h ! r ! c =
                   C ! h ! r ! c + of_nat (length (filter (contributes lon2d h r c) (gr # stack))))"
    using rest one by simp
  then show ?case using res wf' by blast
qed

lemma sint_of_nat_32: "n < 2 ^ 31 \<Longrightarrow> sint (of_nat n :: 32 word) = int n"
proof -
  assume n: "n < 2 ^ 31"
  then have "int n < 2 ^ 31" by (metis of_nat_less_iff of_nat_numeral of_nat_power)
  moreover have "- (2 ^ 31) \<le> int n" by simp
  ultimately have "signed_take_bit 31 (int n) = int n"
    by (intro signed_take_bit_int_eq_self)
  then show ?thesis by (simp add: signed_of_nat)
qed

lemma foldl_fl_add_finite:
  "\<forall>v \<in> set vs. isfinite v \<Longrightarrow> foldl fl_add (Fin a) vs = Fin (a + sum_list (map fin_val vs))"
proof (induction vs arbitrary: a)
  case Nil
  then show ?case by simp
next
  case (Cons v vs)
  then obtain x where "v = Fin x" by (cases v) auto
  then show ?case using Cons by (simp add: add.assoc)
qed

lemma bucket_partition:
  assumes "\<And>x. P x \<Longrightarrow> 0 \<le> f x \<and> f x < 24"
  shows "(\<Sum>h = 0..<24. length (filter (\<lambda>x. P x \<and> f x = int h) xs)) = length (filter P xs)"
proof (induction xs)
  case Nil
  then show ?case by simp
next
  case (Cons x xs)
  have "(\<Sum>h = 0..<24. length (filter (\<lambda>x. P x \<and> f x = int h) (x # xs)))
        = (\<Sum>h = 0..<24. (if P x \<and> f x = int h then 1 else 0)
                          + length (filter (\<lambda>x. P x \<and> f x = int h) xs))"
    by (intro sum.cong) auto
  also have "\<dots> = (\<Sum>h = 0..<24. (if P x \<and> f x = int h then 1 else 0)) + length (filter P xs)"
    by (simp add: sum.distrib Cons.IH)
  also have "(\<Sum>h = 0..<24. (if P x \<and> f x = int h then 1 else 0 :: nat)) = (if P x then 1 else 0)"
  proof (cases "P x")
    case False
    then show ?thesis by simp
  next
    case True
    then have r: "0 \<le> f x" "f x < 24" using assms by auto
    have "(\<Sum>h = 0..<24. (if P x \<and> f x = int h then 1 else 0 :: nat))
          = (\<Sum>h = 0..<24. (if h = nat (f x) then 1 else 0))"
      using True r by (intro sum.cong) auto
    also have "\<dots> = 1" using r by (simp add: sum.delta')
    finally show ?thesis using True by simp
  qed
  finally show ?case by simp
qed

lemma has_shape_replicate:
  "H' = H \<Longrightarrow> (0 < H \<Longrightarrow> W' = W) \<Longrightarrow> has_shape H W (replicate H' (replicate W' x))"
  by (cases "0 < H") (auto simp: has_shape_def)

lemma hod_accumulate_result:
  assumes ne: "stack \<noteq> []" and l: "has_shape H W lon2d"
    and gs: "\<forall>gr \<in> set stack. has_shape H W (snd gr)"
  shows "\<exists>S C N.
           hod_accumulate stack lon2d = Inr (S, C, N) \<and> hod_wf H W (S, C, N) \<and>
           (\<forall>h<24.
              N ! h = int (length (filter (any_contributes H W lon2d h) stack)) \<and>
              (\<forall>r<H. \<forall>c<W.
                 S ! h ! r ! c =
                   Fin (sum_list (map (\<lambda>gr. fin_val (snd gr ! r ! c))
                                    (filter (contributes lon2d h r c) stack))) \<and>
                 C ! h ! r ! c = of_nat (length (filter (contributes lon2d h r c) stack))))"
proof -
  obtain first rest where stack: "stack = first # rest" using ne by (cases stack) auto
  obtain H' W' where hw: "shape (snd first) = (H', W')" by (cases "shape (snd first)")
  have g0: "has_shape H W (snd first)" using gs stack by simp
  have H': "H' = H" using hw g0 by (simp add: shape_def has_shape_def)
  have W': "0 < H \<Longrightarrow> W' = W" using hw shape_has_shape[OF g0] by simp
  let ?S0 = "replicate 24 (replicate H' (replicate W' (Fin 0)))"
  let ?C0 = "replicate 24 (replicate H' (replicate W' (0 :: 32 word)))"
  let ?N0 = "replicate 24 (0 :: int)"
  have wf0: "hod_wf H W (?S0, ?C0, ?N0)"
    using H' W' by (simp add: hod_wf_def has_shape_replicate)
  have acc: "hod_accumulate stack lon2d
             = fold_err (hod_granule (shape (snd first)) lon2d) stack (?S0, ?C0, ?N0)"
    by (simp add: hod_accumulate_def stack hw)
  from hod_stack_fold[OF l g0 refl gs wf0] obtain S C N where
    fold: "fold_err (hod_granule (shape (snd first)) lon2d) stack (?S0, ?C0, ?N0) = Inr (S, C, N)"
    and wf: "hod_wf H W (S, C, N)"
    and props: "\<forall>h<24.
              N ! h = ?N0 ! h + int (length (filter (any_contributes H W lon2d h) stack)) \<and>
              (\<forall>r<H. \<forall>c<W.
                 S ! h ! r ! c =
                   foldl fl_add (?S0 ! h ! r ! c)
                     (map (\<lambda>gr. snd gr ! r ! c) (filter (contributes lon2d h r c) stack)) \<and>
                 C ! h ! r ! c =
                   ?C0 ! h ! r ! c + of_nat (length (filter (contributes lon2d h r c) stack)))"
    by blast
  have "N ! h = int (length (filter (any_contributes H W lon2d h) stack)) \<and>
              (\<forall>r<H. \<forall>c<W.
                 S ! h ! r ! c =
                   Fin (sum_list (map (\<lambda>gr. fin_val (snd gr ! r ! c))
                                    (filter (contributes lon2d h r c) stack))) \<and>
                 C ! h ! r ! c = of_nat (length (filter (contributes lon2d h r c) stack)))"
    if h: "h < 24" for h
  proof (intro conjI allI impI)
    show "N ! h = int (length (filter (any_contributes H W lon2d h) stack))"
      using props h by simp
  next
    fix r c assume rc: "r < H" "c < W"
    then have c': "c < W'" "r < H'" using W' H' by simp_all
    have fin: "\<forall>v \<in> set (map (\<lambda>gr. snd gr ! r ! c) (filter (contributes lon2d h r c) stack)).
                 isfinite v"
      by (auto simp: contributes_def)
    have "S ! h ! r ! c = foldl fl_add (Fin 0)
            (map (\<lambda>gr. snd gr ! r ! c) (filter (contributes lon2d h r c) stack))"
      using props h rc c' by simp
    also have "\<dots> = Fin (0 + sum_list (map fin_val
            (map (\<lambda>gr. snd gr ! r ! c) (filter (contributes lon2d h r c) stack))))"
      using fin by (rule foldl_fl_add_finite)
    finally show "S ! h ! r ! c =
                   Fin (sum_list (map (\<lambda>gr. fin_val (snd gr ! r ! c))
                                    (filter (contributes lon2d h r c) stack)))"
      by (simp add: comp_def)
    show "C ! h ! r ! c = of_nat (length (filter (contributes lon2d h r c) stack))"
      using props h rc c' by simp
  qed
  then show ?thesis using acc fold wf by auto
qed

lemma build_hod_cells:
  assumes ne: "stack \<noteq> []" and l: "has_shape H W lon2d"
    and gs: "\<forall>gr \<in> set stack. has_shape H W (snd gr)"
  shows "\<exists>grids counts.
           build_hod stack lon2d min_per_hour = Inr (grids, counts) \<and>
           length grids = 24 \<and> length counts = 24 \<and>
           (\<forall>h<24.
              has_shape H W (grids ! h) \<and>
              counts ! h = int (length (filter (any_contributes H W lon2d h) stack)) \<and>
              (\<forall>r<H. \<forall>c<W.
                 grids ! h ! r ! c =
                   hod_mean min_per_hour
                     (Fin (sum_list (map (\<lambda>gr. fin_val (snd gr ! r ! c))
                                      (filter (contributes lon2d h r c) stack))))
                     (of_nat (length (filter (contributes lon2d h r c) stack)))))"
proof -
  from hod_accumulate_result[OF assms] obtain S C N where
    acc: "hod_accumulate stack lon2d = Inr (S, C, N)" and wf: "hod_wf H W (S, C, N)"
    and props: "\<forall>h<24.
              N ! h = int (length (filter (any_contributes H W lon2d h) stack)) \<and>
              (\<forall>r<H. \<forall>c<W.
                 S ! h ! r ! c =
                   Fin (sum_list (map (\<lambda>gr. fin_val (snd gr ! r ! c))
                                    (filter (contributes lon2d h r c) stack))) \<and>
                 C ! h ! r ! c = of_nat (length (filter (contributes lon2d h r c) stack)))"
    by blast
  let ?grids = "map (\<lambda>h. map2 (map2 (hod_mean min_per_hour)) (S ! h) (C ! h)) [0..<24]"
  have res: "build_hod stack lon2d min_per_hour = Inr (?grids, N)"
    by (simp add: build_hod_def acc)
  have shp: "has_shape H W (S ! h)" "has_shape H W (C ! h)" if "h < 24" for h
    using wf that by (simp_all add: hod_wf_def)
  have lenN: "length N = 24" using wf by (simp add: hod_wf_def)
  have "has_shape H W (?grids ! h) \<and>
        N ! h = int (length (filter (any_contributes H W lon2d h) stack)) \<and>
        (\<forall>r<H. \<forall>c<W.
           ?grids ! h ! r ! c =
             hod_mean min_per_hour
               (Fin (sum_list (map (\<lambda>gr. fin_val (snd gr ! r ! c))
                                (filter (contributes lon2d h r c) stack))))
               (of_nat (length (filter (contributes lon2d h r c) stack))))"
    if h: "h < 24" for h
  proof -
    have g: "?grids ! h = map2 (map2 (hod_mean min_per_hour)) (S ! h) (C ! h)"
      using h by simp
    have "has_shape H W (?grids ! h)"
      unfolding g using shp[OF h] by (rule has_shape_map2)
    moreover have "?grids ! h ! r ! c =
             hod_mean min_per_hour
               (Fin (sum_list (map (\<lambda>gr. fin_val (snd gr ! r ! c))
                                (filter (contributes lon2d h r c) stack))))
               (of_nat (length (filter (contributes lon2d h r c) stack)))"
      if rc: "r < H" "c < W" for r c
    proof -
      have "?grids ! h ! r ! c = hod_mean min_per_hour (S ! h ! r ! c) (C ! h ! r ! c)"
        unfolding g using shp[OF h] rc by (rule nth_map2_map2)
      then show ?thesis using props h rc by simp
    qed
    ultimately show ?thesis using props h by blast
  qed
  then show ?thesis using res lenN by (intro exI[of _ ?grids] exI[of _ N]) simp
qed


lemma sum_length_filter_card:
  "(\<Sum>h = 0..<(n::nat). length (filter (Q h) xs))
     = card {(h, k). h < n \<and> k < length xs \<and> Q h (xs ! k)}"
proof -
  have "{(h, k). h < n \<and> k < length xs \<and> Q h (xs ! k)}
        = (SIGMA h:{0..<n}. {k. k < length xs \<and> Q h (xs ! k)})"
    by auto
  moreover have "card (SIGMA h:{0..<n}. {k. k < length xs \<and> Q h (xs ! k)})
        = (\<Sum>h\<in>{0..<n}. card {k. k < length xs \<and> Q h (xs ! k)})"
    by (rule card_SigmaI) auto
  moreover have "length (filter (Q h) xs) = card {k. k < length xs \<and> Q h (xs ! k)}" for h
    by (rule length_filter_conv_card)
  ultimately show ?thesis by simp
qed

lemma hour_pairs_le_finite_cells:
  fixes stack :: "granule list"
  shows "card {(h, k). h < 24 \<and> k < length stack \<and> any_contributes H W lon2d h (stack ! k)}
         \<le> card {(k, r, c). k < length stack \<and> r < H \<and> c < W \<and> isfinite (snd (stack ! k) ! r ! c)}"
proof -
  let ?A = "{(k, r, c). k < length stack \<and> r < H \<and> c < W \<and> isfinite (snd (stack ! k) ! r ! c)}"
  let ?B = "{(h, k). h < 24 \<and> k < length stack \<and> any_contributes H W lon2d h (stack ! k)}"
  let ?f = "\<lambda>(k, r, c). (nat (local_hour_of (fst (stack ! k)) (lon2d ! r ! c)), k)"
  have "?A \<subseteq> {0..<length stack} \<times> {0..<H} \<times> {0..<W}" by auto
  then have fin: "finite ?A" by (rule finite_subset) simp
  have "?B \<subseteq> ?f ` ?A"
  proof
    fix p assume "p \<in> ?B"
    then obtain h k where p: "p = (h, k)" and k: "k < length stack"
      and a: "any_contributes H W lon2d h (stack ! k)" by auto
    from a obtain r c where rc: "r < H" "c < W"
      and fn: "isfinite (snd (stack ! k) ! r ! c)"
      and lh: "local_hour_of (fst (stack ! k)) (lon2d ! r ! c) = int h"
      by (auto simp: any_contributes_def contributes_def)
    have "(k, r, c) \<in> ?A" using k rc fn by simp
    moreover have "?f (k, r, c) = p" using lh p by simp
    ultimately show "p \<in> ?f ` ?A" by (metis (no_types, lifting) image_eqI)
  qed
  then have "card ?B \<le> card (?f ` ?A)" using fin by (intro card_mono) auto
  also have "\<dots> \<le> card ?A" using fin by (rule card_image_le)
  finally show ?thesis .
qed

text \<open>
  Claim C7, as stated, fails in two ways.  The bucket is computed from the longitude stored
  for the cell, not from its column: with a longitude array whose rows differ, as
  \<^verbatim>\<open>build_hod\<close> accepts it, the two cells of one column fall into different buckets.
  And the bucket is the float64 value of the formula, rounded after every operation, not
  its exact value: for the end timestamp 1176 and the longitude -139.9 (as a float64)
  the code finds hour 15, while the exact floor of the formula gives hour 14.
\<close>

theorem build_hod_bucket_counterexample:
  "compute_local_hour 0 [[0], [45 / 2]] = [[0], [1]] \<and>
   build_hod [(0, [[Fin 1], [Fin 2]])] [[0], [45 / 2]] 1
     = Inr ([[Fin 1], [NaN]] # [[NaN], [Fin 2]] # replicate 22 [[NaN], [NaN]],
            1 # 1 # replicate 22 0) \<and>
   local_hour_of 1176 (- (4922293655227597 / 35184372088832)) = 15 \<and>
   \<lfloor>(real_of_int 1176 + (- (4922293655227597 / 35184372088832) / 360) * 86400) / 3600\<rfloor>
     mod 24 = 14"
  by code_simp



text \<open>
  Claim C10: in \<^verbatim>\<open>build_hod\<close>, for every cell, each granule in which that cell is finite
  contributes to exactly one of the 24 hour buckets: the count of a cell in the bucket of
  hour \<open>h\<close> is the number of granules in which the cell is finite and its local hour is
  \<open>h\<close> (a granule in which the cell is missing increments no count), and the 24 counts
  of the cell sum to the number of granules in which the cell is finite.  The counts are
  int32: the statement is for fewer than \<open>2^31\<close> granules.
\<close>

theorem hod_cell_counts_partition:
  assumes "stack \<noteq> []" and "has_shape H W lon2d"
    and "\<forall>gr \<in> set stack. has_shape H W (snd gr)"
    and "length stack < 2 ^ 31"
  shows "\<exists>hod_sum hod_cnt hour_counts.
           hod_accumulate stack lon2d = Inr (hod_sum, hod_cnt, hour_counts) \<and>
           (\<forall>r<H. \<forall>c<W.
              (\<forall>h<24.
                 sint (hod_cnt ! h ! r ! c) =
                   int (length (filter (\<lambda>gr. isfinite (snd gr ! r ! c) \<and>
                                   local_hour_of (fst gr) (lon2d ! r ! c) = int h) stack))) \<and>
              (\<Sum>h = 0..<24. sint (hod_cnt ! h ! r ! c)) =
                 int (length (filter (\<lambda>gr. isfinite (snd gr ! r ! c)) stack)))"
proof -
  from hod_accumulate_result[OF assms(1-3)] obtain S C N where
    acc: "hod_accumulate stack lon2d = Inr (S, C, N)"
    and props: "\<forall>h<24.
              N ! h = int (length (filter (any_contributes H W lon2d h) stack)) \<and>
              (\<forall>r<H. \<forall>c<W.
                 S ! h ! r ! c =
                   Fin (sum_list (map (\<lambda>gr. fin_val (snd gr ! r ! c))
                                    (filter (contributes lon2d h r c) stack))) \<and>
                 C ! h ! r ! c = of_nat (length (filter (contributes lon2d h r c) stack)))"
    by blast
  have cnt: "sint (C ! h ! r ! c) = int (length (filter (contributes lon2d h r c) stack))"
    if "h < 24" "r < H" "c < W" for h r c
  proof -
    have "length (filter (contributes lon2d h r c) stack) \<le> length stack" by simp
    then have "length (filter (contributes lon2d h r c) stack) < 2 ^ 31"
      using assms(4) by (rule le_less_trans)
    then show ?thesis using props that by (simp add: sint_of_nat_32)
  qed
  have "(\<forall>h<24.
                 sint (C ! h ! r ! c) =
                   int (length (filter (\<lambda>gr. isfinite (snd gr ! r ! c) \<and>
                                   local_hour_of (fst gr) (lon2d ! r ! c) = int h) stack))) \<and>
              (\<Sum>h = 0..<24. sint (C ! h ! r ! c)) =
                 int (length (filter (\<lambda>gr. isfinite (snd gr ! r ! c)) stack))"
    if rc: "r < H" "c < W" for r c
  proof
    show each: "\<forall>h<24.
          sint (C ! h ! r ! c) =
            int (length (filter (\<lambda>gr. isfinite (snd gr ! r ! c) \<and>
                            local_hour_of (fst gr) (lon2d ! r ! c) = int h) stack))"
      using cnt rc by (simp add: contributes_def[abs_def])
    have "(\<Sum>h = 0..<24. sint (C ! h ! r ! c))
          = (\<Sum>h = 0..<24. int (length (filter (\<lambda>gr. isfinite (snd gr ! r ! c) \<and>
                            local_hour_of (fst gr) (lon2d ! r ! c) = int h) stack)))"
      using each by (intro sum.cong) auto
    also have "\<dots> = int (\<Sum>h = 0..<24. length (filter (\<lambda>gr. isfinite (snd gr ! r ! c) \<and>
                            local_hour_of (fst gr) (lon2d ! r ! c) = int h) stack))"
      by simp
    also have "\<dots> = int (length (filter (\<lambda>gr. isfinite (snd gr ! r ! c)) stack))"
      by (subst bucket_partition[where P = "\<lambda>gr. isfinite (snd gr ! r ! c)"
            and f = "\<lambda>gr. local_hour_of (fst gr) (lon2d ! r ! c)"])
         (simp_all add: local_hour_of_def)
    finally show "(\<Sum>h = 0..<24. sint (C ! h ! r ! c)) =
                 int (length (filter (\<lambda>gr. isfinite (snd gr ! r ! c)) stack))" .
  qed
  then show ?thesis using acc by blast
qed

theorem hod_cell_counts_partition_witness:
  "[(0 :: int, [[Fin 3, Fin 2]]), (10, [[Fin 5, NaN]]), (3600, [[Fin 5, NaN]])] \<noteq> [] \<and>
   has_shape 1 2 [[0 :: real, 15]] \<and>
   list_all (\<lambda>gr. has_shape 1 2 (snd gr))
     [(0 :: int, [[Fin 3, Fin 2]]), (10, [[Fin 5, NaN]]), (3600, [[Fin 5, NaN]])] \<and>
   length [(0 :: int, [[Fin 3, Fin 2]]), (10, [[Fin 5, NaN]]), (3600, [[Fin 5, NaN]])]
     < 2 ^ 31 \<and>
   (\<exists>hod_sum hod_cnt hour_counts.
      hod_accumulate [(0, [[Fin 3, Fin 2]]), (10, [[Fin 5, NaN]]), (3600, [[Fin 5, NaN]])]
        [[0, 15]] = Inr (hod_sum, hod_cnt, hour_counts) \<and>
      (\<Sum>h = 0..<24. sint (hod_cnt ! h ! 0 ! 0)) = 3 \<and>
      (\<Sum>h = 0..<24. sint (hod_cnt ! h ! 0 ! 1)) = 1 \<and>
      sint (hod_cnt ! 0 ! 0 ! 0) = 2 \<and> sint (hod_cnt ! 1 ! 0 ! 0) = 1)"
proof -
  let ?stack = "[(0 :: int, [[Fin 3, Fin 2]]), (10, [[Fin 5, NaN]]), (3600, [[Fin 5, NaN]])]"
  have h: "?stack \<noteq> []" "has_shape 1 2 [[0 :: real, 15]]"
    "\<forall>gr \<in> set ?stack. has_shape 1 2 (snd gr)" "length ?stack < 2 ^ 31"
    by (simp_all add: has_shape_def)
  from hod_cell_counts_partition [OF h]
  obtain S C N where
    res: "hod_accumulate ?stack [[0, 15]] = Inr (S, C, N)"
    and cells: "\<forall>r<1. \<forall>c<2.
              (\<forall>h<24.
                 sint (C ! h ! r ! c) =
                   int (length (filter (\<lambda>gr. isfinite (snd gr ! r ! c) \<and>
                                   local_hour_of (fst gr) ([[0, 15]] ! r ! c) = int h) ?stack))) \<and>
              (\<Sum>h = 0..<24. sint (C ! h ! r ! c)) =
                 int (length (filter (\<lambda>gr. isfinite (snd gr ! r ! c)) ?stack))"
    by blast
  have a: "(\<Sum>h = 0..<24. sint (C ! h ! 0 ! 0)) = 3"
    using cells[rule_format, of 0 0, THEN conjunct2] by simp
  have b: "(\<Sum>h = 0..<24. sint (C ! h ! 0 ! 1)) = 1"
    using cells[rule_format, of 0 1, THEN conjunct2] by simp
  have lh: "local_hour_of 0 0 = 0" "local_hour_of 10 0 = 0" "local_hour_of 3600 0 = 1"
    by code_simp+
  have c: "sint (C ! 0 ! 0 ! 0) = 2"
    using cells[rule_format, of 0 0, THEN conjunct1, rule_format, of 0]
    by (simp add: lh)
  have d: "sint (C ! 1 ! 0 ! 0) = 1"
    using cells[rule_format, of 0 0, THEN conjunct1, rule_format, of 1]
    by (simp add: lh)
  show ?thesis using h(1,2,4) res a b c d by (simp add: has_shape_def)
qed

text \<open>
  Claim C4, as stated, fails: a per-hour counter is incremented once per granule that has
  any contributing cell, not once per contributing cell.  One granule with two finite
  cells in the same hour bucket gives counters that sum to 1, while 2 (granule, cell)
  pairs are finite.
\<close>

theorem hour_counts_not_cell_counts_counterexample:
  "build_hod [(0, [[Fin 1, Fin 2]])] [[0, 0]] 1
     = Inr ([[Fin 1, Fin 2]] # replicate 23 [[NaN, NaN]], 1 # replicate 23 0) \<and>
   sum_list (1 # replicate 23 (0 :: int)) = 1 \<and>
   length (filter isfinite (concat [[Fin 1, Fin 2]])) = 2"
  by code_simp

text \<open>
  Claim C4, amended: for every non-empty collection of same-shape granules, each of the 24
  global per-hour counters produced by \<^verbatim>\<open>build_hod\<close> is the number of granules in which
  at least one finite cell falls into that hour's bucket; summed across all 24 hours the
  counters give the number of (hour, granule) pairs with at least one finite contribution,
  which is at most the total number of (granule, cell) pairs whose value is finite.
\<close>

theorem hour_counts_count_granules:
  assumes "stack \<noteq> []" and "has_shape H W lon2d"
    and "\<forall>gr \<in> set stack. has_shape H W (snd gr)"
  shows "\<exists>grids counts.
           build_hod stack lon2d min_per_hour = Inr (grids, counts) \<and> length counts = 24 \<and>
           (\<forall>h<24. counts ! h =
              int (length (filter (\<lambda>gr. \<exists>r<H. \<exists>c<W. isfinite (snd gr ! r ! c) \<and>
                      local_hour_of (fst gr) (lon2d ! r ! c) = int h) stack))) \<and>
           sum_list counts =
              int (card {(h, k). h < 24 \<and> k < length stack \<and>
                           (\<exists>r<H. \<exists>c<W. isfinite (snd (stack ! k) ! r ! c) \<and>
                              local_hour_of (fst (stack ! k)) (lon2d ! r ! c) = int h)}) \<and>
           sum_list counts \<le>
              int (card {(k, r, c). k < length stack \<and> r < H \<and> c < W \<and>
                           isfinite (snd (stack ! k) ! r ! c)})"
proof -
  from build_hod_cells[OF assms, of min_per_hour] obtain grids counts where
    res: "build_hod stack lon2d min_per_hour = Inr (grids, counts)"
    and len: "length counts = 24"
    and props: "\<forall>h<24.
              has_shape H W (grids ! h) \<and>
              counts ! h = int (length (filter (any_contributes H W lon2d h) stack)) \<and>
              (\<forall>r<H. \<forall>c<W.
                 grids ! h ! r ! c =
                   hod_mean min_per_hour
                     (Fin (sum_list (map (\<lambda>gr. fin_val (snd gr ! r ! c))
                                      (filter (contributes lon2d h r c) stack))))
                     (of_nat (length (filter (contributes lon2d h r c) stack))))"
    by blast
  have any: "any_contributes H W lon2d h =
               (\<lambda>gr. \<exists>r<H. \<exists>c<W. isfinite (snd gr ! r ! c) \<and>
                      local_hour_of (fst gr) (lon2d ! r ! c) = int h)" for h
    by (rule ext) (simp add: any_contributes_def contributes_def)
  have each: "\<forall>h<24. counts ! h = int (length (filter (any_contributes H W lon2d h) stack))"
    using props by blast
  have "sum_list counts = (\<Sum>h = 0..<24. counts ! h)"
    using len by (simp add: sum_list_sum_nth)
  also have "\<dots> = (\<Sum>h = 0..<24. int (length (filter (any_contributes H W lon2d h) stack)))"
    using each by (intro sum.cong) auto
  also have "\<dots> = int (\<Sum>h = 0..<24. length (filter (any_contributes H W lon2d h) stack))"
    by simp
  also have "\<dots> = int (card {(h, k). h < 24 \<and> k < length stack \<and>
                                any_contributes H W lon2d h (stack ! k)})"
    by (simp only: sum_length_filter_card)
  finally have total: "sum_list counts = int (card {(h, k). h < 24 \<and> k < length stack \<and>
                                any_contributes H W lon2d h (stack ! k)})" .
  have le: "sum_list counts \<le>
              int (card {(k, r, c). k < length stack \<and> r < H \<and> c < W \<and>
                           isfinite (snd (stack ! k) ! r ! c)})"
    unfolding total using hour_pairs_le_finite_cells[of stack H W lon2d] by simp
  show ?thesis
    using res len each total le unfolding any by blast
qed

theorem hour_counts_count_granules_witness:
  "[(0 :: int, [[Fin 3, Fin 2]]), (10, [[Fin 5, NaN]]), (3600, [[Fin 5, NaN]])] \<noteq> [] \<and>
   has_shape 1 2 [[0 :: real, 15]] \<and>
   list_all (\<lambda>gr. has_shape 1 2 (snd gr))
     [(0 :: int, [[Fin 3, Fin 2]]), (10, [[Fin 5, NaN]]), (3600, [[Fin 5, NaN]])] \<and>
   (\<exists>grids counts.
      build_hod [(0, [[Fin 3, Fin 2]]), (10, [[Fin 5, NaN]]), (3600, [[Fin 5, NaN]])]
        [[0, 15]] 2 = Inr (grids, counts) \<and>
      counts = 2 # 2 # replicate 22 0 \<and> sum_list counts = 4)"
proof -
  let ?stack = "[(0 :: int, [[Fin 3, Fin 2]]), (10, [[Fin 5, NaN]]), (3600, [[Fin 5, NaN]])]"
  have h: "?stack \<noteq> []" "has_shape 1 2 [[0 :: real, 15]]"
    "\<forall>gr \<in> set ?stack. has_shape 1 2 (snd gr)"
    by (simp_all add: has_shape_def)
  from hour_counts_count_granules [OF h, of 2]
  obtain grids counts where
    res: "build_hod ?stack [[0, 15]] 2 = Inr (grids, counts)"
    by blast
  have ev: "build_hod ?stack [[0, 15]] 2
              = Inr ([[Fin 4, NaN]] # replicate 23 [[NaN, NaN]], 2 # 2 # replicate 22 0)"
    by code_simp
  have c: "counts = 2 # 2 # replicate 22 0" using res ev by simp
  then have s: "sum_list counts = 4" by (simp add: sum_list_replicate)
  show ?thesis using h(1,2) res c s by (simp add: has_shape_def)
qed

end
